theory Spec2Isabelle
  imports Main
begin

section \<open>JavaScript values\<close>

text \<open>
  Job attributes, handler results and condition operands have the TypeScript type
  \<^verbatim>\<open>any\<close>. They are modelled by a datatype of JavaScript values. Numbers are the
  integer-valued ones (timeouts, counts, status codes); an object is an association list
  read with the first binding of a key. Wall-clock values (\<^verbatim>\<open>new Date()\<close>,
  \<^verbatim>\<open>Date.now()\<close>) are left out of every payload.
\<close>

datatype jsval =
    JUndefined
  | JNull
  | JBool bool
  | JNum int
  | JStr string
  | JArr "jsval list"
  | JObj "(string \<times> jsval) list"

text \<open>Truthiness, as used by \<^verbatim>\<open>||\<close>, \<^verbatim>\<open>!\<close> and \<^verbatim>\<open>?:\<close>.\<close>

fun js_truthy :: "jsval \<Rightarrow> bool" where
  "js_truthy JUndefined = False"
| "js_truthy JNull = False"
| "js_truthy (JBool b) = b"
| "js_truthy (JNum n) = (n \<noteq> 0)"
| "js_truthy (JStr s) = (s \<noteq> [])"
| "js_truthy (JArr xs) = True"
| "js_truthy (JObj fs) = True"

text \<open>\<^verbatim>\<open>a || b\<close> and \<^verbatim>\<open>a ?? b\<close>.\<close>

definition js_or :: "jsval \<Rightarrow> jsval \<Rightarrow> jsval" where
  "js_or a b = (if js_truthy a then a else b)"

definition js_nullish :: "jsval \<Rightarrow> jsval \<Rightarrow> jsval" where
  "js_nullish a b = (if a = JUndefined \<or> a = JNull then b else a)"

text \<open>Property read \<^verbatim>\<open>v?.k\<close>: undefined on a missing key and on every non-object.\<close>

fun js_get :: "jsval \<Rightarrow> string \<Rightarrow> jsval" where
  "js_get (JObj fs) k = (case map_of fs k of None \<Rightarrow> JUndefined | Some v \<Rightarrow> v)"
| "js_get v k = JUndefined"

text \<open>Decimal text of an integer, as \<^verbatim>\<open>String(n)\<close> prints it.\<close>

fun show_nat :: "nat \<Rightarrow> string" where
  "show_nat n =
     (if n < 10 then [''0123456789'' ! n]
      else show_nat (n div 10) @ [''0123456789'' ! (n mod 10)])"

declare show_nat.simps [simp del]

definition show_int :: "int \<Rightarrow> string" where
  "show_int i = (if i < 0 then CHR ''-'' # show_nat (nat (- i)) else show_nat (nat i))"

text \<open>\<^verbatim>\<open>xs.join(sep)\<close> on strings.\<close>

fun join :: "string \<Rightarrow> string list \<Rightarrow> string" where
  "join sep [] = []"
| "join sep [x] = x"
| "join sep (x # y # ys) = x @ sep @ join sep (y # ys)"

text \<open>
  \<^verbatim>\<open>String(v)\<close>. An array prints its elements joined by commas, with null and
  undefined elements printed as the empty string; a plain object prints as
  \<^verbatim>\<open>[object Object]\<close>.
\<close>

fun js_String :: "jsval \<Rightarrow> string" where
  "js_String JUndefined = ''undefined''"
| "js_String JNull = ''null''"
| "js_String (JBool b) = (if b then ''true'' else ''false'')"
| "js_String (JNum n) = show_int n"
| "js_String (JStr s) = s"
| "js_String (JArr xs) =
     join '','' (map (\<lambda>x. if x = JUndefined \<or> x = JNull then [] else js_String x) xs)"
| "js_String (JObj fs) = ''[object Object]''"

text \<open>
  The values whose text \<^verbatim>\<open>String(v)\<close> is \<open>js_String v\<close>. An integer is a JavaScript
  number, printed with its decimal digits, when it is a safe integer
  (\<^verbatim>\<open>Number.isSafeInteger\<close>); from \<^verbatim>\<open>1e21\<close> on JavaScript prints an exponent. An
  object that the conversion reaches, itself or as an element of an array, must not
  have an own \<^verbatim>\<open>toString\<close> property: such a property is no function here, and
  the conversion raises a TypeError.
\<close>

definition safeInteger :: "int \<Rightarrow> bool" where
  "safeInteger n = (- 9007199254740991 \<le> n \<and> n \<le> 9007199254740991)"

fun printable :: "jsval \<Rightarrow> bool" where
  "printable (JNum n) = safeInteger n"
| "printable (JArr xs) = (\<forall>x\<in>set xs. printable x)"
| "printable (JObj fs) = (''toString'' \<notin> set (map fst fs))"
| "printable v = True"

section \<open>Compiled jobs (types.ts)\<close>

record JobConnection =
  targetJobId :: string
  condition :: string

record JobDependency =
  sourceJobId :: string
  dep_condition :: string

text \<open>
  \<^verbatim>\<open>BackendJob\<close>. The attribute record is \<^verbatim>\<open>Record<string, any>\<close>; its
  \<^verbatim>\<open>nodeId\<close> entry, which the engine uses as the job id, is a field of its own.
\<close>

record BackendJob =
  jtype :: string
  nodeId :: string
  attributes :: "(string \<times> jsval) list"
  connections :: "JobConnection list"
  dependencies :: "JobDependency list"
  isConditional :: bool

record ExecutionFlow =
  startNode :: "string option"
  totalJobs :: nat
  hasConditionalFlow :: bool

record BackendJobsConfig =
  jobs :: "BackendJob list"
  executionFlow :: ExecutionFlow

text \<open>\<^verbatim>\<open>job.attributes.k\<close>.\<close>

definition attr :: "BackendJob \<Rightarrow> string \<Rightarrow> jsval" where
  "attr job k = js_get (JObj (attributes job)) k"

section \<open>Execution results (realExecution.ts)\<close>

datatype job_status = Pending | Running | Completed | Failed | Skipped

datatype workflow_status = WRunning | WCompleted | WFailed | WCancelled

text \<open>
  \<^verbatim>\<open>JobExecutionResult\<close>, without its two timestamps and its display label. An
  absent \<^verbatim>\<open>result\<close> or \<^verbatim>\<open>error\<close> is \<^verbatim>\<open>undefined\<close>.
\<close>

record JobExecutionResult =
  jobId :: string
  rtype :: string
  status :: job_status
  result :: jsval
  error :: "string option"
  logs :: "string list"

section \<open>Routing: getNextJobs\<close>

text \<open>
  The two \<^verbatim>\<open>forEach\<close> loops push the target of each matching connection, in the
  order of \<^verbatim>\<open>job.connections\<close>.
\<close>

fun pushMatching :: "(string \<Rightarrow> bool) \<Rightarrow> JobConnection list \<Rightarrow> string list \<Rightarrow> string list" where
  "pushMatching p [] nextJobs = nextJobs"
| "pushMatching p (c # cs) nextJobs =
     pushMatching p cs (if p (condition c) then nextJobs @ [targetJobId c] else nextJobs)"

definition getNextJobs :: "BackendJob \<Rightarrow> JobExecutionResult \<Rightarrow> string list" where
  "getNextJobs job jobResult =
     (if isConditional job \<and> js_get (result jobResult) ''conditionResult'' \<noteq> JUndefined
      then
        (let conditionMet = js_get (result jobResult) ''conditionResult'';
             targetCondition = (if js_truthy conditionMet then ''true'' else ''false'')
         in pushMatching (\<lambda>c. c = targetCondition) (connections job) [])
      else pushMatching (\<lambda>c. c = ''out'' \<or> c = ''default'') (connections job) [])"

lemma pushMatching_filter:
  "pushMatching p cs acc = acc @ map targetJobId (filter (\<lambda>c. p (condition c)) cs)"
  by (induction cs arbitrary: acc) simp_all

section \<open>The executor and its collaborators\<close>

text \<open>
  A thrown value is an \<^verbatim>\<open>Error\<close> instance with its message, or any other value.
  \<^verbatim>\<open>error instanceof Error ? error.message : String(error)\<close> reads it.
\<close>

datatype thrown = Error string | NonError jsval

fun thrown_message :: "thrown \<Rightarrow> string" where
  "thrown_message (Error m) = m"
| "thrown_message (NonError v) = js_String v"

text \<open>
  \<^verbatim>\<open>SendEmailRequest\<close> as the handler builds it, without \<^verbatim>\<open>related_id\<close>
  (which is \<^verbatim>\<open>workflow_\<close> followed by the clock).
\<close>

record SendEmailRequest =
  to :: jsval
  cc :: jsval
  bcc :: jsval
  subject :: jsval
  body :: jsval
  related_class :: string
  from_email :: jsval
  provider :: jsval
  template_id :: jsval
  template_name :: jsval

text \<open>
  The email collaborator: the promise it returns rejects with a thrown value or resolves
  with a result.
\<close>

type_synonym email_fn = "SendEmailRequest \<Rightarrow> thrown + jsval"

text \<open>
  What \<^verbatim>\<open>fetch\<close> does is outside the program: the timer aborts the request, the
  request rejects, or a response arrives (ok flag, status, status text, content type,
  body as the handler decodes it, header entries).
\<close>

datatype fetch_outcome =
    Aborted
  | Rejected thrown
  | Responded bool int string "string option" jsval "(string \<times> jsval) list"

text \<open>
  The request the API handler hands to \<^verbatim>\<open>fetch\<close>, with the delay of its abort timer.
  Its body is the body attribute itself when that is a string, and otherwise the text
  \<^verbatim>\<open>JSON.stringify\<close> makes of the attribute, kept here as the value it is made of.
\<close>

datatype request_body = BodyText string | BodyJson jsval

record fetch_request =
  req_url :: jsval
  req_method :: jsval
  req_headers :: "(string \<times> jsval) list"
  req_body :: "request_body option"
  req_timeout :: jsval

text \<open>
  The constructor's options; the two observer callbacks only receive copies of results
  and are left out.
\<close>

record executor_options =
  opt_emailSendFunction :: "email_fn option"
  opt_scriptTimeout :: "int option"
  opt_apiTimeout :: "int option"

record RealWorkflowExecutor =
  emailSendFunction :: "email_fn option"
  scriptTimeout :: int
  apiTimeout :: int

text \<open>\<^verbatim>\<open>options?.k ?? d\<close> for an optional number.\<close>

definition opt_or :: "executor_options option \<Rightarrow> (executor_options \<Rightarrow> int option) \<Rightarrow> int \<Rightarrow> int" where
  "opt_or options sel d =
     (case options of None \<Rightarrow> d | Some os \<Rightarrow> (case sel os of None \<Rightarrow> d | Some v \<Rightarrow> v))"

definition constructor :: "executor_options option \<Rightarrow> RealWorkflowExecutor" where
  "constructor options =
     \<lparr> emailSendFunction = (case options of None \<Rightarrow> None | Some os \<Rightarrow> opt_emailSendFunction os),
       scriptTimeout = opt_or options opt_scriptTimeout 30000,
       apiTimeout = opt_or options opt_apiTimeout 60000 \<rparr>"

section \<open>Strings\<close>

text \<open>\<^verbatim>\<open>s.includes(sub)\<close>.\<close>

fun starts_with :: "string \<Rightarrow> string \<Rightarrow> bool" where
  "starts_with s [] = True"
| "starts_with [] (c # cs) = False"
| "starts_with (x # xs) (c # cs) = (x = c \<and> starts_with xs cs)"

fun str_includes :: "string \<Rightarrow> string \<Rightarrow> bool" where
  "str_includes [] sub = (sub = [])"
| "str_includes (x # xs) sub = (starts_with (x # xs) sub \<or> str_includes xs sub)"

section \<open>Handler: SendEmail\<close>

text \<open>The object literal at the head of \<^verbatim>\<open>executeSendEmailJob\<close>.\<close>

definition emailData :: "BackendJob \<Rightarrow> SendEmailRequest" where
  "emailData job =
     \<lparr> to = js_or (attr job ''to'') (JArr [JStr ''test@example.com'']),
       cc = attr job ''cc'',
       bcc = attr job ''bcc'',
       subject = js_or (attr job ''subject'') (JStr ''Workflow Email Notification''),
       body = js_or (attr job ''body'')
                (JStr ''This email was sent from a real workflow execution.''),
       related_class = ''workflow'',
       from_email = attr job ''fromEmail'',
       provider = attr job ''provider'',
       template_id = attr job ''templateId'',
       template_name = attr job ''templateName'' \<rparr>"

text \<open>\<^verbatim>\<open>Array.isArray(v) ? v.length : d\<close> and \<^verbatim>\<open>v.length\<close> of a string.\<close>

fun array_length_or :: "jsval \<Rightarrow> int \<Rightarrow> int" where
  "array_length_or (JArr xs) d = int (length xs)"
| "array_length_or v d = d"

fun body_length :: "jsval \<Rightarrow> jsval" where
  "body_length (JStr s) = JNum (int (length s))"
| "body_length (JArr xs) = js_or (JNum (int (length xs))) (JNum 0)"
| "body_length v = js_or (js_get v ''length'') (JNum 0)"

text \<open>The own enumerable properties that \<^verbatim>\<open>{...result}\<close> copies.\<close>

fun index_from :: "nat \<Rightarrow> jsval list \<Rightarrow> (string \<times> jsval) list" where
  "index_from i [] = []"
| "index_from i (v # vs) = (show_nat i, v) # index_from (Suc i) vs"

fun spread :: "jsval \<Rightarrow> (string \<times> jsval) list" where
  "spread (JObj fs) = fs"
| "spread (JArr xs) = index_from 0 xs"
| "spread (JStr s) = index_from 0 (map (\<lambda>c. JStr [c]) s)"
| "spread v = []"

text \<open>\<^verbatim>\<open>{...fs, k: v}\<close>: a later key replaces an earlier one in place.\<close>

fun set_field :: "(string \<times> jsval) list \<Rightarrow> string \<Rightarrow> jsval \<Rightarrow> (string \<times> jsval) list" where
  "set_field [] k v = [(k, v)]"
| "set_field ((k', v') # fs) k v = (if k' = k then (k, v) # fs else (k', v') # set_field fs k v)"

definition enhancedResult :: "SendEmailRequest \<Rightarrow> jsval \<Rightarrow> jsval" where
  "enhancedResult ed res =
     JObj (set_field (spread res) ''executionDetails''
       (JObj [(''executionMode'', JStr ''REAL_API''),
              (''emailData'',
                 JObj [(''recipients'',
                          JObj [(''to'', JNum (array_length_or (to ed) 1)),
                                (''cc'', JNum (array_length_or (cc ed) 0)),
                                (''bcc'', JNum (array_length_or (bcc ed) 0))]),
                       (''subject'', subject ed),
                       (''bodyLength'', body_length (body ed))])]))"

text \<open>
  \<^verbatim>\<open>executeSendEmailJob\<close>. It returns what it throws (if anything), the job result it
  leaves behind, and the requests handed to the email collaborator. Reading
  \<^verbatim>\<open>result.id\<close> of a null or undefined reply raises a TypeError inside the
  \<^verbatim>\<open>try\<close>, after the result was stored.
\<close>

definition executeSendEmailJob ::
  "RealWorkflowExecutor \<Rightarrow> BackendJob \<Rightarrow> JobExecutionResult
     \<Rightarrow> thrown option \<times> JobExecutionResult \<times> SendEmailRequest list" where
  "executeSendEmailJob this job jobResult =
     (case emailSendFunction this of
        None \<Rightarrow>
          (Some (Error ''Email send function not provided to executor. Cannot send real emails.''),
           jobResult, [])
      | Some send \<Rightarrow>
          (case send (emailData job) of
             Inl e \<Rightarrow>
               (Some (Error (''Failed to send real email: '' @ thrown_message e)),
                jobResult, [emailData job])
           | Inr res \<Rightarrow>
               (if res = JUndefined \<or> res = JNull
                then (Some (Error (''Failed to send real email: ''
                              @ ''Cannot read properties of '' @ js_String res
                              @ '' (reading 'id')'')),
                      jobResult\<lparr>result := enhancedResult (emailData job) res\<rparr>,
                      [emailData job])
                else (None,
                      jobResult\<lparr>result := enhancedResult (emailData job) res\<rparr>,
                      [emailData job]))))"

section \<open>Handler: APICall\<close>

text \<open>A destructuring default \<^verbatim>\<open>{k = d}\<close> applies to undefined only.\<close>

definition default_to :: "jsval \<Rightarrow> jsval \<Rightarrow> jsval" where
  "default_to v d = (if v = JUndefined then d else v)"

definition requestTimeout :: "RealWorkflowExecutor \<Rightarrow> BackendJob \<Rightarrow> jsval" where
  "requestTimeout this job = js_or (attr job ''timeout'') (JNum (apiTimeout this))"

text \<open>The headers object with the two defaults first and the job's headers spread over them.\<close>

definition requestHeaders :: "BackendJob \<Rightarrow> (string \<times> jsval) list" where
  "requestHeaders job =
     foldl (\<lambda>fs (k, v). set_field fs k v)
       [(''Content-Type'', JStr ''application/json''), (''Accept'', JStr ''application/json'')]
       (spread (default_to (attr job ''headers'') (JObj [])))"

definition fetchRequest :: "RealWorkflowExecutor \<Rightarrow> BackendJob \<Rightarrow> fetch_request" where
  "fetchRequest this job =
     (let method = default_to (attr job ''method'') (JStr ''GET'');
          body = attr job ''body''
      in \<lparr> req_url = attr job ''url'',
           req_method = method,
           req_headers = requestHeaders job,
           req_body = (if js_truthy body \<and> method \<noteq> JStr ''GET''
                       then Some (case body of JStr str \<Rightarrow> BodyText str | v \<Rightarrow> BodyJson v)
                       else None),
           req_timeout = requestTimeout this job \<rparr>)"

text \<open>The \<^verbatim>\<open>catch\<close> of the handler's inner \<^verbatim>\<open>try\<close>.\<close>

definition apiCatch :: "jsval \<Rightarrow> jsval \<Rightarrow> thrown \<Rightarrow> bool \<Rightarrow> thrown" where
  "apiCatch url timeout e isAbort =
     (case e of
        Error m \<Rightarrow>
          (if isAbort then Error (''API call timed out after '' @ js_String timeout @ ''ms'')
           else if str_includes m ''Failed to fetch''
           then Error (''Network error: Possible CORS issue or server unreachable. URL: ''
                       @ js_String url)
           else Error (''API call failed: '' @ m))
      | NonError v \<Rightarrow> NonError v)"

text \<open>
  \<^verbatim>\<open>executeAPICallJob\<close>, given what \<^verbatim>\<open>fetch\<close> does with the request. An aborted
  request rejects with an \<^verbatim>\<open>Error\<close> named \<^verbatim>\<open>AbortError\<close>.
\<close>

definition executeAPICallJob ::
  "RealWorkflowExecutor \<Rightarrow> (fetch_request \<Rightarrow> fetch_outcome) \<Rightarrow> BackendJob \<Rightarrow> JobExecutionResult
     \<Rightarrow> thrown option \<times> JobExecutionResult" where
  "executeAPICallJob this fetch job jobResult =
     (let url = attr job ''url'';
          method = default_to (attr job ''method'') (JStr ''GET'')
      in if \<not> js_truthy url then (Some (Error ''API Call job requires a URL''), jobResult)
         else
           (case fetch (fetchRequest this job) of
              Aborted \<Rightarrow>
                (Some (apiCatch url (requestTimeout this job)
                         (Error ''The operation was aborted.'') True), jobResult)
            | Rejected e \<Rightarrow>
                (Some (apiCatch url (requestTimeout this job) e False), jobResult)
            | Responded ok st stText contentType responseData hdrs \<Rightarrow>
                (if \<not> ok
                 then (Some (apiCatch url (requestTimeout this job)
                               (Error (''API call failed with status '' @ show_int st @ '': ''
                                       @ stText)) False),
                       jobResult)
                 else (None,
                       jobResult\<lparr>result :=
                         JObj [(''success'', JBool ok),
                               (''statusCode'', JNum st),
                               (''statusText'', JStr stText),
                               (''data'', responseData),
                               (''headers'', JObj hdrs),
                               (''executionDetails'',
                                  JObj [(''url'', url),
                                        (''method'', method),
                                        (''contentType'',
                                           JStr (case contentType of None \<Rightarrow> ''unknown''
                                                 | Some ct \<Rightarrow> if ct = [] then ''unknown'' else ct))])]
                       \<rparr>))))"

section \<open>The workflow result\<close>

text \<open>
  \<^verbatim>\<open>WorkflowExecutionResult\<close>: the run status and the \<^verbatim>\<open>Map\<close> from job id to
  job result, as an association list in insertion order. The workflow id and the two
  times come from the clock, and every line of \<^verbatim>\<open>executionLogs\<close> is written by
  \<^verbatim>\<open>log\<close> behind a timestamp; they are left out. Of a job's \<^verbatim>\<open>logs\<close> the model
  keeps the lines pushed without a timestamp.
\<close>

record WorkflowExecutionResult =
  wstatus :: workflow_status
  jobResults :: "(string \<times> JobExecutionResult) list"

text \<open>\<^verbatim>\<open>map.get(k)\<close> and \<^verbatim>\<open>map.set(k, v)\<close>.\<close>

definition map_get :: "(string \<times> 'v) list \<Rightarrow> string \<Rightarrow> 'v option" where
  "map_get m k = map_of m k"

fun map_set :: "(string \<times> 'v) list \<Rightarrow> string \<Rightarrow> 'v \<Rightarrow> (string \<times> 'v) list" where
  "map_set [] k v = [(k, v)]"
| "map_set ((k', v') # m) k v = (if k' = k then (k, v) # m else (k', v') # map_set m k v)"

section \<open>Handler: Condition\<close>

text \<open>
  \<^verbatim>\<open>s.toLowerCase()\<close> and \<^verbatim>\<open>s.trim()\<close> on ASCII text: the upper-case letters A to
  Z are lowered, and blanks, tabs, line feeds, vertical tabs, form feeds and carriage
  returns are stripped. On other text JavaScript lowers further letters and strips
  further white space (\<^verbatim>\<open>U+00A0\<close> and others); \<open>ascii\<close> marks the strings on
  which the two functions are the ones of the source.
\<close>

definition ascii :: "string \<Rightarrow> bool" where
  "ascii s = list_all (\<lambda>c. \<not> digit7 c) s"

definition lower_char :: "char \<Rightarrow> char" where
  "lower_char c =
     (case map_of (zip ''ABCDEFGHIJKLMNOPQRSTUVWXYZ'' ''abcdefghijklmnopqrstuvwxyz'') c of
        None \<Rightarrow> c | Some l \<Rightarrow> l)"

definition toLowerCase :: "string \<Rightarrow> string" where
  "toLowerCase s = map lower_char s"

definition is_space :: "char \<Rightarrow> bool" where
  "is_space c = (c \<in> set [CHR '' '', CHR 0x09, CHR 0x0A, CHR 0x0B, CHR 0x0C, CHR 0x0D])"

definition trim :: "string \<Rightarrow> string" where
  "trim s = rev (dropWhile is_space (rev (dropWhile is_space s)))"

text \<open>
  \<^verbatim>\<open>getJobResultsForScript\<close>: every job result with a truthy payload is stored under
  its job id and under its lower-cased type followed by \<^verbatim>\<open>_result\<close>; a later job
  overwrites an earlier one under the same key.
\<close>

fun addJobResults ::
  "(string \<times> JobExecutionResult) list \<Rightarrow> (string \<times> jsval) list \<Rightarrow> (string \<times> jsval) list" where
  "addJobResults [] context = context"
| "addJobResults ((jid, jobResult) # rest) context =
     addJobResults rest
       (if js_truthy (result jobResult)
        then set_field (set_field context jid (result jobResult))
               (toLowerCase (rtype jobResult) @ ''_result'') (result jobResult)
        else context)"

definition getJobResultsForScript :: "WorkflowExecutionResult \<Rightarrow> (string \<times> jsval) list" where
  "getJobResultsForScript workflowResult = addJobResults (jobResults workflowResult) []"

text \<open>
  The \<^verbatim>\<open>switch\<close> on the operator. \<^verbatim>\<open>Number(a) > Number(b)\<close> compares two IEEE
  doubles after conversion; the comparison is the parameter \<open>gt\<close>, and
  \<^verbatim>\<open>Number(a) < Number(b)\<close> is \<open>gt b a\<close>.
\<close>

definition evalOperator ::
  "(jsval \<Rightarrow> jsval \<Rightarrow> bool) \<Rightarrow> jsval \<Rightarrow> jsval \<Rightarrow> jsval \<Rightarrow> thrown + bool" where
  "evalOperator gt fieldValue operator val =
     (if operator = JStr ''equals'' then Inr (js_String fieldValue = js_String val)
      else if operator = JStr ''not_equals'' then Inr (js_String fieldValue \<noteq> js_String val)
      else if operator = JStr ''greater_than'' then Inr (gt fieldValue val)
      else if operator = JStr ''less_than'' then Inr (gt val fieldValue)
      else if operator = JStr ''contains''
        then Inr (str_includes (toLowerCase (js_String fieldValue)) (toLowerCase (js_String val)))
      else if operator = JStr ''not_contains''
        then Inr (\<not> str_includes (toLowerCase (js_String fieldValue)) (toLowerCase (js_String val)))
      else if operator = JStr ''is_empty''
        then Inr (\<not> js_truthy fieldValue \<or> trim (js_String fieldValue) = [])
      else if operator = JStr ''is_not_empty''
        then Inr (js_truthy fieldValue \<and> trim (js_String fieldValue) \<noteq> [])
      else Inl (Error (''Unknown operator: '' @ js_String operator)))"

text \<open>
  The body of the \<^verbatim>\<open>map\<close> callback. Destructuring a null or undefined condition
  raises a TypeError; a field missing from the context reads as null.
\<close>

definition evaluateCondition ::
  "(jsval \<Rightarrow> jsval \<Rightarrow> bool) \<Rightarrow> (string \<times> jsval) list \<Rightarrow> jsval \<Rightarrow> thrown + bool" where
  "evaluateCondition gt contextData cond =
     (if cond = JUndefined \<or> cond = JNull
      then Inl (Error (''Cannot destructure property 'field' of 'condition' as it is ''
                       @ js_String cond @ ''.''))
      else
        (let field = js_get cond ''field'';
             operator = js_get cond ''operator'';
             val = js_get cond ''value'';
             fieldValue = js_get (JObj contextData) (js_String field);
             fieldValue = (if fieldValue = JUndefined then JNull else fieldValue)
         in evalOperator gt fieldValue operator val))"

text \<open>\<^verbatim>\<open>conditions.map(...)\<close>: the first callback that throws ends the loop.\<close>

fun mapConditions ::
  "(jsval \<Rightarrow> jsval \<Rightarrow> bool) \<Rightarrow> (string \<times> jsval) list \<Rightarrow> jsval list \<Rightarrow> thrown + bool list" where
  "mapConditions gt contextData [] = Inr []"
| "mapConditions gt contextData (c # cs) =
     (case evaluateCondition gt contextData c of
        Inl e \<Rightarrow> Inl e
      | Inr r \<Rightarrow>
          (case mapConditions gt contextData cs of
             Inl e \<Rightarrow> Inl e
           | Inr rs \<Rightarrow> Inr (r # rs)))"

text \<open>
  \<^verbatim>\<open>executeConditionJob\<close>. A truthy \<^verbatim>\<open>conditions\<close> value that is not an array has
  no \<^verbatim>\<open>map\<close> method unless its \<^verbatim>\<open>length\<close> is 0, which is rejected first.
\<close>

definition executeConditionJob ::
  "(jsval \<Rightarrow> jsval \<Rightarrow> bool) \<Rightarrow> BackendJob \<Rightarrow> JobExecutionResult \<Rightarrow> WorkflowExecutionResult
     \<Rightarrow> thrown option \<times> JobExecutionResult" where
  "executeConditionJob gt job jobResult workflowResult =
     (let conditions = attr job ''conditions'';
          logic = default_to (attr job ''logic'') (JStr ''AND'')
      in if \<not> js_truthy conditions then
           (Some (Error ''Condition job requires at least one condition''), jobResult)
         else
           (case conditions of
              JArr cs \<Rightarrow>
                (if cs = [] then
                   (Some (Error ''Condition job requires at least one condition''), jobResult)
                 else
                   (case mapConditions gt (getJobResultsForScript workflowResult) cs of
                      Inl e \<Rightarrow> (Some e, jobResult)
                    | Inr results \<Rightarrow>
                        (let conditionResult =
                               (if logic = JStr ''AND'' then list_all (\<lambda>r. r) results
                                else list_ex (\<lambda>r. r) results)
                         in (None,
                             jobResult\<lparr>result :=
                               JObj [(''conditionResult'', JBool conditionResult),
                                     (''evaluatedConditions'', JNum (int (length cs))),
                                     (''logic'', logic),
                                     (''results'', JArr (map JBool results)),
                                     (''executionMode'', JStr ''REAL'')]\<rparr>))))
            | _ \<Rightarrow>
                (if js_get conditions ''length'' = JNum 0 then
                   (Some (Error ''Condition job requires at least one condition''), jobResult)
                 else (Some (Error ''conditions.map is not a function''), jobResult))))"

section \<open>Example jobs\<close>

definition conditionJob :: BackendJob where
  "conditionJob =
     \<lparr> jtype = ''Condition'', nodeId = ''A'', attributes = [],
       connections = [\<lparr>targetJobId = ''T'', condition = ''true''\<rparr>,
                      \<lparr>targetJobId = ''F'', condition = ''false''\<rparr>],
       dependencies = [], isConditional = True \<rparr>"

definition conditionTrue :: JobExecutionResult where
  "conditionTrue =
     \<lparr> jobId = ''A'', rtype = ''Condition'', status = Completed,
       result = JObj [(''conditionResult'', JBool True)], error = None, logs = [] \<rparr>"

definition apiJob :: BackendJob where
  "apiJob =
     \<lparr> jtype = ''APICall'', nodeId = ''api'',
       attributes = [(''url'', JStr ''https://example.org/'')],
       connections = [], dependencies = [], isConditional = False \<rparr>"

definition emptyResult :: "string \<Rightarrow> string \<Rightarrow> JobExecutionResult" where
  "emptyResult i t = \<lparr> jobId = i, rtype = t, status = Pending, result = JUndefined, error = None, logs = [] \<rparr>"




section \<open>Handler: Condition, specification\<close>

text \<open>
  The eight operators of the specification, each with its predicate on the field value
  and the operand.
\<close>

definition operatorTable ::
  "(jsval \<Rightarrow> jsval \<Rightarrow> bool) \<Rightarrow> (string \<times> (jsval \<Rightarrow> jsval \<Rightarrow> bool)) list" where
  "operatorTable gt =
     [(''equals'', \<lambda>fv v. js_String fv = js_String v),
      (''not_equals'', \<lambda>fv v. js_String fv \<noteq> js_String v),
      (''greater_than'', \<lambda>fv v. gt fv v),
      (''less_than'', \<lambda>fv v. gt v fv),
      (''contains'', \<lambda>fv v. str_includes (toLowerCase (js_String fv)) (toLowerCase (js_String v))),
      (''not_contains'', \<lambda>fv v. \<not> str_includes (toLowerCase (js_String fv)) (toLowerCase (js_String v))),
      (''is_empty'', \<lambda>fv v. \<not> js_truthy fv \<or> trim (js_String fv) = []),
      (''is_not_empty'', \<lambda>fv v. js_truthy fv \<and> trim (js_String fv) \<noteq> [])]"

fun operatorName :: "jsval \<Rightarrow> string option" where
  "operatorName (JStr s) = Some s"
| "operatorName v = None"

definition lookupOperator ::
  "(jsval \<Rightarrow> jsval \<Rightarrow> bool) \<Rightarrow> jsval \<Rightarrow> (jsval \<Rightarrow> jsval \<Rightarrow> bool) option" where
  "lookupOperator gt operator =
     (case operatorName operator of None \<Rightarrow> None | Some s \<Rightarrow> map_of (operatorTable gt) s)"

text \<open>The value a condition compares: the context entry named by its field, null when missing.\<close>

definition conditionFieldValue :: "(string \<times> jsval) list \<Rightarrow> jsval \<Rightarrow> jsval" where
  "conditionFieldValue contextData cond =
     (case map_of contextData (js_String (js_get cond ''field'')) of
        None \<Rightarrow> JNull
      | Some fv \<Rightarrow> if fv = JUndefined then JNull else fv)"

text \<open>
  The context is a plain object, so reading it under the name of a member of
  \<^verbatim>\<open>Object.prototype\<close> gives the inherited member unless the context has a key of
  that name, and storing under \<^verbatim>\<open>__proto__\<close> creates no key. The inherited members
  are functions, which are no values here.
\<close>

definition objectPrototypeMembers :: "string list" where
  "objectPrototypeMembers =
     [''constructor'', ''__defineGetter__'', ''__defineSetter__'', ''hasOwnProperty'',
      ''__lookupGetter__'', ''__lookupSetter__'', ''isPrototypeOf'', ''propertyIsEnumerable'',
      ''toString'', ''valueOf'', ''__proto__'', ''toLocaleString'']"

text \<open>
  The job results from which the context is built as an association list holding its own
  keys: no job result with a payload is stored under the id \<^verbatim>\<open>__proto__\<close>, and the
  types that are lower-cased are ASCII.
\<close>

definition contextModelled :: "WorkflowExecutionResult \<Rightarrow> bool" where
  "contextModelled workflowResult =
     list_all (\<lambda>(jid, jobResult).
                 js_truthy (result jobResult) \<longrightarrow> jid \<noteq> ''__proto__'' \<and> ascii (rtype jobResult))
       (jobResults workflowResult)"

text \<open>
  The conditions that the handler evaluates as \<open>evaluateCondition\<close> does: the field, the
  operator, the operand and the field value can be printed into the log line; the field
  names no inherited member of the context; the texts that are lower-cased or trimmed
  are ASCII.
\<close>

definition conditionModelled :: "(string \<times> jsval) list \<Rightarrow> jsval \<Rightarrow> bool" where
  "conditionModelled contextData cond =
     (let field = js_get cond ''field'';
          operator = js_get cond ''operator'';
          val = js_get cond ''value'';
          fieldValue = conditionFieldValue contextData cond
      in printable field \<and> printable operator \<and> printable val \<and> printable fieldValue
         \<and> (js_String field \<in> set objectPrototypeMembers
                \<longrightarrow> js_String field \<in> set (map fst contextData))
         \<and> ascii (js_String fieldValue) \<and> ascii (js_String val))"

definition conditionKnown :: "(jsval \<Rightarrow> jsval \<Rightarrow> bool) \<Rightarrow> jsval \<Rightarrow> bool" where
  "conditionKnown gt cond =
     (cond \<noteq> JUndefined \<and> cond \<noteq> JNull \<and> lookupOperator gt (js_get cond ''operator'') \<noteq> None)"

definition conditionHolds ::
  "(jsval \<Rightarrow> jsval \<Rightarrow> bool) \<Rightarrow> (string \<times> jsval) list \<Rightarrow> jsval \<Rightarrow> bool" where
  "conditionHolds gt contextData cond =
     (case lookupOperator gt (js_get cond ''operator'') of
        None \<Rightarrow> False
      | Some p \<Rightarrow> p (conditionFieldValue contextData cond) (js_get cond ''value''))"

text \<open>What one job result writes into the context.\<close>

definition contextWrites :: "string \<times> JobExecutionResult \<Rightarrow> (string \<times> jsval) list" where
  "contextWrites e =
     (if js_truthy (result (snd e))
      then [(fst e, result (snd e)), (toLowerCase (rtype (snd e)) @ ''_result'', result (snd e))]
      else [])"

definition xCondition :: jsval where
  "xCondition = JObj [(''field'', JStr ''x''), (''operator'', JStr ''equals''), (''value'', JStr ''1'')]"

definition conditionJobX :: BackendJob where
  "conditionJobX =
     \<lparr> jtype = ''Condition'', nodeId = ''A'',
       attributes = [(''conditions'', JArr [xCondition])],
       connections = [\<lparr>targetJobId = ''T'', condition = ''true''\<rparr>,
                      \<lparr>targetJobId = ''F'', condition = ''false''\<rparr>],
       dependencies = [], isConditional = True \<rparr>"

definition matchesJob :: BackendJob where
  "matchesJob =
     \<lparr> jtype = ''Condition'', nodeId = ''A'',
       attributes = [(''conditions'',
          JArr [JObj [(''field'', JStr ''x''), (''operator'', JStr ''matches''), (''value'', JStr ''1'')]])],
       connections = [], dependencies = [], isConditional = True \<rparr>"

definition contextX :: WorkflowExecutionResult where
  "contextX =
     \<lparr> wstatus = WRunning,
       jobResults =
         [(''x'', \<lparr> jobId = ''x'', rtype = ''Script'', status = Completed,
                    result = JStr ''1'', error = None, logs = [] \<rparr>),
          (''A'', emptyResult ''A'' ''Condition'')] \<rparr>"

definition neverGreater :: "jsval \<Rightarrow> jsval \<Rightarrow> bool" where
  "neverGreater a b = False"

section \<open>Cycle check (workflowUtils.ts)\<close>

text \<open>
  The adjacency \<^verbatim>\<open>Map<string, Set<string>>\<close>; \<^verbatim>\<open>graph.get(nodeId) || new Set()\<close>
  reads it.
\<close>

type_synonym adjacency = "(string \<times> string list) list"

definition neighbors :: "adjacency \<Rightarrow> string \<Rightarrow> string list" where
  "neighbors graph node = (case map_of graph node of None \<Rightarrow> [] | Some ns \<Rightarrow> ns)"

text \<open>The keys of the adjacency map.\<close>

definition graphNodes :: "adjacency \<Rightarrow> string set" where
  "graphNodes graph = set (map fst graph)"

text \<open>
  The inner function \<^verbatim>\<open>hasCycle\<close> with the two sets it updates, \<^verbatim>\<open>visited\<close> and
  \<^verbatim>\<open>recursionStack\<close>, passed in and returned; \<^verbatim>\<open>hasCycleFor\<close> is its loop over the
  neighbours. On the answer true the sets are returned as they stand.
\<close>

function (sequential) hasCycle :: "adjacency \<Rightarrow> string \<Rightarrow> string set \<times> string set \<Rightarrow> bool \<times> string set \<times> string set"
  and hasCycleFor :: "adjacency \<Rightarrow> string list \<Rightarrow> string set \<times> string set \<Rightarrow> bool \<times> string set \<times> string set"
where
  "hasCycle graph node (visited, recursionStack) =
     (if node \<in> recursionStack then (True, visited, recursionStack)
      else if node \<in> visited then (False, visited, recursionStack)
      else
        (let r = hasCycleFor graph (neighbors graph node)
                   (insert node visited, insert node recursionStack)
         in if fst r then r else (False, fst (snd r), snd (snd r) - {node})))"
| "hasCycleFor graph [] st = (False, st)"
| "hasCycleFor graph (neighbor # rest) st =
     (let r = hasCycle graph neighbor st
      in if fst r then r else hasCycleFor graph rest (snd r))"
  by pat_completeness auto

lemma visited_mono:
  "hasCycle_hasCycleFor_dom (Inl (graph, node, st)) \<Longrightarrow> fst st \<subseteq> fst (snd (hasCycle graph node st))"
  "hasCycle_hasCycleFor_dom (Inr (graph, ns, st)) \<Longrightarrow> fst st \<subseteq> fst (snd (hasCycleFor graph ns st))"
proof (induction graph node st and graph ns st rule: hasCycle_hasCycleFor.pinduct)
  case (1 graph node visited recursionStack)
  then show ?case
    by (auto simp add: hasCycle.psimps Let_def split: if_splits)
next
  case (2 graph st)
  then show ?case by (simp add: hasCycleFor.psimps)
next
  case (3 graph neighbor rest st)
  then show ?case
    by (auto simp add: hasCycleFor.psimps Let_def split: if_splits)
qed

lemma neighbors_outside: "node \<notin> graphNodes graph \<Longrightarrow> neighbors graph node = []"
  by (simp add: neighbors_def graphNodes_def map_of_eq_None_iff [THEN iffD2])

lemma finite_graphNodes: "finite (graphNodes graph)"
  by (simp add: graphNodes_def)

termination hasCycle
proof (relation "(\<lambda>x. case x of
          Inl (graph, node, st) \<Rightarrow> card (graphNodes graph - fst st)
        | Inr (graph, ns, st) \<Rightarrow> card (graphNodes graph - fst st))
      <*mlex*>
      measure (\<lambda>x. case x of
          Inl (graph, node, st) \<Rightarrow> 1
        | Inr (graph, ns, st) \<Rightarrow> (if ns = [] then 0 else 2 + length ns))", goal_cases)
  case 1
  then show ?case by (simp add: wf_mlex)
next
  case (2 graph node visited recursionStack)
  show ?case
  proof (cases "node \<in> graphNodes graph")
    case True
    with 2 have "card (graphNodes graph - insert node visited) < card (graphNodes graph - visited)"
      by (intro psubset_card_mono) (auto simp add: finite_graphNodes)
    then show ?thesis by (simp add: mlex_iff)
  next
    case False
    then have "graphNodes graph - insert node visited = graphNodes graph - visited" by auto
    then show ?thesis by (simp add: mlex_iff neighbors_outside [OF False])
  qed
next
  case (3 graph neighbor rest st)
  then show ?case by (simp add: mlex_iff)
next
  case (4 graph neighbor rest st x)
  have "fst st \<subseteq> fst (snd (hasCycle graph neighbor st))"
    using 4 by (intro visited_mono)
  then have "card (graphNodes graph - fst (snd (hasCycle graph neighbor st)))
               \<le> card (graphNodes graph - fst st)"
    by (intro card_mono) (auto simp add: finite_graphNodes)
  with 4 show ?case by (auto simp add: mlex_iff)
qed

record WorkflowEdge =
  edge_id :: string
  edge_from :: string
  edge_output :: string
  edge_to :: string
  edge_input :: string

text \<open>
  \<^verbatim>\<open>if (!graph.has(k)) graph.set(k, new Set())\<close> and \<^verbatim>\<open>graph.get(k)!.add(w)\<close> on the
  adjacency map, whose keys and neighbour sets keep their insertion order.
\<close>

definition ensureKey :: "adjacency \<Rightarrow> string \<Rightarrow> adjacency" where
  "ensureKey graph k = (if map_of graph k = None then graph @ [(k, [])] else graph)"

definition addNeighbor :: "adjacency \<Rightarrow> string \<Rightarrow> string \<Rightarrow> adjacency" where
  "addNeighbor graph k w =
     map (\<lambda>(k', ns). if k' = k then (k', if w \<in> set ns then ns else ns @ [w]) else (k', ns)) graph"

definition addEdge :: "adjacency \<Rightarrow> string \<Rightarrow> string \<Rightarrow> adjacency" where
  "addEdge graph u w = addNeighbor (ensureKey graph u) u w"

definition buildGraph :: "WorkflowEdge list \<Rightarrow> string \<Rightarrow> string \<Rightarrow> adjacency" where
  "buildGraph existingEdges fromNodeId toNodeId =
     addEdge (foldl (\<lambda>graph edge. addEdge graph (edge_from edge) (edge_to edge)) [] existingEdges)
       fromNodeId toNodeId"

text \<open>The loop over \<^verbatim>\<open>graph.keys()\<close> that starts a search at every unvisited key.\<close>

fun checkKeys :: "adjacency \<Rightarrow> string list \<Rightarrow> string set \<times> string set \<Rightarrow> bool" where
  "checkKeys graph [] st = False"
| "checkKeys graph (node # rest) st =
     (if node \<notin> fst st
      then (let r = hasCycle graph node st in if fst r then True else checkKeys graph rest (snd r))
      else checkKeys graph rest st)"

definition wouldCreateCycle :: "string \<Rightarrow> string \<Rightarrow> WorkflowEdge list \<Rightarrow> bool" where
  "wouldCreateCycle fromNodeId toNodeId existingEdges =
     (let graph = buildGraph existingEdges fromNodeId toNodeId
      in checkKeys graph (map fst graph) ({}, {}))"

text \<open>The edge relation of the specification: the existing edges and the proposed one.\<close>

definition augmentedEdges :: "string \<Rightarrow> string \<Rightarrow> WorkflowEdge list \<Rightarrow> (string \<times> string) set" where
  "augmentedEdges fromNodeId toNodeId existingEdges =
     insert (fromNodeId, toNodeId) ((\<lambda>e. (edge_from e, edge_to e)) ` set existingEdges)"

text \<open>The edge relation an adjacency map stands for.\<close>

definition edgesOf :: "adjacency \<Rightarrow> (string \<times> string) set" where
  "edgesOf graph = {(u, w). w \<in> set (neighbors graph u)}"

text \<open>A set of nodes that is closed under the edges and meets no cycle.\<close>

definition settled :: "adjacency \<Rightarrow> string set \<Rightarrow> bool" where
  "settled graph B =
     ((\<forall>u\<in>B. \<forall>w\<in>set (neighbors graph u). w \<in> B) \<and> (\<forall>u\<in>B. (u, u) \<notin> (edgesOf graph)\<^sup>+))"

definition edgeAB :: WorkflowEdge where
  "edgeAB = \<lparr> edge_id = ''e1'', edge_from = ''a'', edge_output = ''out'', edge_to = ''b'', edge_input = ''in'' \<rparr>"

definition edgeBC :: WorkflowEdge where
  "edgeBC = \<lparr> edge_id = ''e2'', edge_from = ''b'', edge_output = ''out'', edge_to = ''c'', edge_input = ''in'' \<rparr>"

section \<open>Workflow validation (workflowUtils.ts)\<close>

datatype NodeType =
    StartNode | AddTaskNode | ConditionNode | APICallNode | ScriptNode
  | RunServer | RunVM | EndNode

datatype handle_kind = Input | Output

text \<open>
  \<^verbatim>\<open>Handle\<close> and \<^verbatim>\<open>WorkflowNode\<close> (types.ts) with the fields the validator reads:
  a handle's id, direction and \<^verbatim>\<open>required\<close> flag (absent reads as false), a node's
  id, type, label and handles.
\<close>

record Handle =
  handle_id :: string
  handle_type :: handle_kind
  required :: bool

record WorkflowNode =
  node_id :: string
  node_type :: NodeType
  node_label :: string
  handles :: "Handle list"

text \<open>
  \<^verbatim>\<open>ValidationResult\<close>. The warnings (isolated nodes, unreachable nodes, unconnected
  outputs) are computed apart from the errors and do not enter \<^verbatim>\<open>isValid\<close>; they
  are left out.
\<close>

record ValidationResult =
  isValid :: bool
  errors :: "string list"

text \<open>The error text \<^verbatim>\<open>Node "<label>" is missing required input connection\<close>.\<close>

definition missingInputError :: "string \<Rightarrow> string" where
  "missingInputError l =
     ''Node '' @ [CHR 0x22] @ l @ [CHR 0x22] @ '' is missing required input connection''"

text \<open>The two nested loops over the nodes and their required input handles.\<close>

fun missingInputs :: "WorkflowNode \<Rightarrow> WorkflowEdge list \<Rightarrow> Handle list \<Rightarrow> string list \<Rightarrow> string list" where
  "missingInputs n edges [] errs = errs"
| "missingInputs n edges (requiredInput # rest) errs =
     missingInputs n edges rest
       (if list_ex (\<lambda>edge. edge_to edge = node_id n \<and> edge_input edge = handle_id requiredInput) edges
        then errs
        else errs @ [missingInputError (node_label n)])"

fun missingConnections :: "WorkflowNode list \<Rightarrow> WorkflowEdge list \<Rightarrow> string list \<Rightarrow> string list" where
  "missingConnections [] edges errs = errs"
| "missingConnections (n # rest) edges errs =
     missingConnections rest edges
       (missingInputs n edges
          (filter (\<lambda>h. handle_type h = Input \<and> required h) (handles n)) errs)"

definition validateWorkflow :: "WorkflowNode list \<Rightarrow> WorkflowEdge list \<Rightarrow> ValidationResult" where
  "validateWorkflow nodes edges =
     (let startNodes = filter (\<lambda>n. node_type n = StartNode) nodes;
          errs = (if length startNodes = 0 then [''Workflow must have at least one Start node''] else []);
          errs = missingConnections nodes edges errs
      in \<lparr> isValid = (length errs = 0), errors = errs \<rparr>)"

text \<open>A required input handle of a node that no edge enters.\<close>

definition unconnected :: "WorkflowEdge list \<Rightarrow> WorkflowNode \<Rightarrow> Handle \<Rightarrow> bool" where
  "unconnected edges n h =
     (handle_type h = Input \<and> required h
      \<and> \<not> (\<exists>e\<in>set edges. edge_to e = node_id n \<and> edge_input e = handle_id h))"

definition startNodeA :: WorkflowNode where
  "startNodeA = \<lparr> node_id = ''s1'', node_type = StartNode, node_label = ''Start'',
      handles = [\<lparr> handle_id = ''out'', handle_type = Output, required = False \<rparr>] \<rparr>"

definition startNodeB :: WorkflowNode where
  "startNodeB = \<lparr> node_id = ''s2'', node_type = StartNode, node_label = ''Start'',
      handles = [\<lparr> handle_id = ''out'', handle_type = Output, required = False \<rparr>] \<rparr>"

definition taskNode :: "string \<Rightarrow> WorkflowNode" where
  "taskNode i = \<lparr> node_id = i, node_type = AddTaskNode, node_label = ''Task'',
      handles = [\<lparr> handle_id = ''in'', handle_type = Input, required = True \<rparr>,
                 \<lparr> handle_id = ''out'', handle_type = Output, required = False \<rparr>] \<rparr>"

definition mkEdge :: "string \<Rightarrow> string \<Rightarrow> WorkflowEdge" where
  "mkEdge u w = \<lparr> edge_id = u @ ''-'' @ w, edge_from = u, edge_output = ''out'', edge_to = w, edge_input = ''in'' \<rparr>"

section \<open>Handlers without collaborators, and the handler switch\<close>

text \<open>
  The handlers that need no collaborator. Their payloads are the object literals of the
  source without the clock fields (\<^verbatim>\<open>timestamp\<close>, \<^verbatim>\<open>taskId\<close>, \<^verbatim>\<open>createdAt\<close>,
  \<^verbatim>\<open>terminatedAt\<close>).
\<close>

definition startJobResult :: "BackendJob \<Rightarrow> jsval" where
  "startJobResult job =
     JObj [(''started'', JBool True),
           (''triggerOnStart'', attr job ''triggerOnStart''),
           (''executionMode'', JStr ''REAL'')]"

definition addTaskJobResult :: "BackendJob \<Rightarrow> jsval" where
  "addTaskJobResult job =
     JObj (foldl (\<lambda>fs (k, v). set_field fs k v)
       [(''title'', js_or (attr job ''title'') (JStr ''Workflow Generated Task'')),
        (''description'',
           js_or (attr job ''description'') (JStr ''Task created by real workflow execution'')),
        (''assignee'', attr job ''assignee''),
        (''priority'', js_or (attr job ''priority'') (JStr ''medium'')),
        (''dueDate'', attr job ''dueDate''),
        (''tags'', js_or (attr job ''tags'') (JArr [JStr ''workflow'', JStr ''real-execution'']))]
       [(''status'', JStr ''created''),
        (''executionMode'', JStr ''REAL''),
        (''note'', JStr ''This task would be created in your real task management system'')])"

definition endJobResult :: jsval where
  "endJobResult =
     JObj [(''message'', JStr ''Real workflow completed successfully''),
           (''finalStatus'', JStr ''completed''),
           (''executionMode'', JStr ''REAL'')]"

text \<open>
  What lies outside the program: what \<^verbatim>\<open>fetch\<close> does with a request, what the user
  script of a Script job returns or throws when run on the context (a time-out of the
  script arrives as a thrown \<^verbatim>\<open>Error\<close>), and the comparison of two values as
  numbers.
\<close>

record world =
  fetchOutcome :: "fetch_request \<Rightarrow> fetch_outcome"
  runScript :: "BackendJob \<Rightarrow> (string \<times> jsval) list \<Rightarrow> thrown + jsval"
  numberGreater :: "jsval \<Rightarrow> jsval \<Rightarrow> bool"

text \<open>
  \<^verbatim>\<open>executeScriptJob\<close>: what it throws and the payload it stores. The captured console
  lines and the measured time are left out of the payload.
\<close>

definition executeScriptJob ::
  "world \<Rightarrow> BackendJob \<Rightarrow> WorkflowExecutionResult \<Rightarrow> thrown option \<times> jsval option" where
  "executeScriptJob w job workflowResult =
     (let script = js_or (attr job ''script'') (attr job ''code'');
          language = default_to (attr job ''language'') (JStr ''javascript'')
      in if \<not> js_truthy script then
           (Some (Error (''Script job requires script content in 'script' or 'code' property. ''
                         @ ''Available properties: ''
                         @ join '', '' (''nodeId'' # map fst (attributes job)))), None)
         else if language \<noteq> JStr ''javascript'' then
           (Some (Error (''Script language '' @ [CHR 0x27] @ js_String language @ [CHR 0x27]
                         @ '' not supported. Only JavaScript is supported.'')), None)
         else
           (case runScript w job (getJobResultsForScript workflowResult) of
              Inl (Error m) \<Rightarrow> (Some (Error (''Script execution failed: '' @ m)), None)
            | Inl (NonError v) \<Rightarrow> (Some (NonError v), None)
            | Inr scriptResult \<Rightarrow>
                (None,
                 Some (JObj [(''success'', JBool True),
                             (''exitCode'', JNum 0),
                             (''language'', language),
                             (''scriptResult'', scriptResult),
                             (''performance'', JObj [(''sandbox'', JStr ''FUNCTION_CONSTRUCTOR'')])]))))"

text \<open>
  The \<^verbatim>\<open>switch\<close> of \<^verbatim>\<open>executeJob\<close>, at the moment the handler is called. It gives
  what the handler will throw, the payload it stores once its promise settles (none when
  it stores nothing then), and the job result as its synchronous part leaves it: AddTask
  and Condition store their payload before their first \<^verbatim>\<open>await\<close>.
\<close>

definition callHandler ::
  "RealWorkflowExecutor \<Rightarrow> world \<Rightarrow> BackendJob \<Rightarrow> JobExecutionResult \<Rightarrow> WorkflowExecutionResult
     \<Rightarrow> thrown option \<times> jsval option \<times> JobExecutionResult" where
  "callHandler this w job jobResult workflowResult =
     (if jtype job = ''Start'' then (None, Some (startJobResult job), jobResult)
      else if jtype job = ''AddTask'' then
        (None, None, jobResult\<lparr>result := addTaskJobResult job\<rparr>)
      else if jtype job = ''Condition'' then
        (let r = executeConditionJob (numberGreater w) job jobResult workflowResult
         in (fst r, None, snd r))
      else if jtype job = ''APICall'' then
        (let r = executeAPICallJob this (fetchOutcome w) job jobResult
         in (fst r, if fst r = None then Some (result (snd r)) else None, jobResult))
      else if jtype job = ''Script'' then
        (let r = executeScriptJob w job workflowResult in (fst r, snd r, jobResult))
      else if jtype job = ''SendEmail'' then
        (let r = executeSendEmailJob this job jobResult
         in (fst r,
             if snd (snd r) = [] \<or> result (fst (snd r)) = result jobResult then None
             else Some (result (fst (snd r))),
             jobResult))
      else if jtype job = ''End'' then (None, Some endJobResult, jobResult)
      else (Some (Error (''Unknown job type: '' @ jtype job)), None, jobResult))"


section \<open>The engine: calls in progress\<close>

text \<open>
  \<^verbatim>\<open>executeFromNode\<close> is an async function: a call runs up to its first \<^verbatim>\<open>await\<close>
  that has to wait, and what follows each \<^verbatim>\<open>await\<close> runs later, possibly after
  steps of other calls. A call that got as far as the handler is a task in one of four phases:
  the handler is running (with what it will throw and the payload it will store);
  the handler's promise has settled; \<^verbatim>\<open>executeJob\<close> has returned or thrown;
  \<^verbatim>\<open>getNextJobs\<close> has returned the ids to follow.
\<close>

datatype task_phase =
    Handling "thrown option" "jsval option"
  | Settled "thrown option"
  | Returned "thrown option"
  | Following "string list"

text \<open>
  The state shared by the calls of one run: the \<^verbatim>\<open>executedNodes\<close> set, the workflow
  result, and the calls in progress. \<open>dispatched\<close> records every call of a handler,
  with the job id and the executed set at that moment; the program does not keep it.
\<close>

record engine_state =
  executedNodes :: "string set"
  wfResult :: WorkflowExecutionResult
  tasks :: "(BackendJob \<times> task_phase) list"
  dispatched :: "(string \<times> string set) list"

text \<open>A change of the job result stored under an id; nothing changes when the id is absent.\<close>

definition updateJobResult ::
  "string \<Rightarrow> (JobExecutionResult \<Rightarrow> JobExecutionResult) \<Rightarrow> WorkflowExecutionResult
     \<Rightarrow> WorkflowExecutionResult" where
  "updateJobResult k f wr =
     wr\<lparr>jobResults := map (\<lambda>(k', r). if k' = k then (k', f r) else (k', r)) (jobResults wr)\<rparr>"

fun statusText :: "job_status \<Rightarrow> string" where
  "statusText Pending = ''pending''"
| "statusText Running = ''running''"
| "statusText Completed = ''completed''"
| "statusText Failed = ''failed''"
| "statusText Skipped = ''skipped''"

text \<open>\<^verbatim>\<open>depJobResult?.status\<close>, and its text inside a template.\<close>

definition depStatus :: "WorkflowExecutionResult \<Rightarrow> JobDependency \<Rightarrow> job_status option" where
  "depStatus wr dep = map_option status (map_get (jobResults wr) (sourceJobId dep))"

definition depStatusText :: "string \<Rightarrow> job_status option \<Rightarrow> string" where
  "depStatusText missing st = (case st of None \<Rightarrow> missing | Some x \<Rightarrow> statusText x)"

text \<open>The two filters of the dependency gate.\<close>

definition dependencyPending :: "string set \<Rightarrow> WorkflowExecutionResult \<Rightarrow> JobDependency \<Rightarrow> bool" where
  "dependencyPending executed wr dep =
     (let isExecuted = (sourceJobId dep \<in> executed);
          isCompleted = (depStatus wr dep = Some Completed);
          isFailed = (depStatus wr dep = Some Failed)
      in \<not> isExecuted \<or> (\<not> isCompleted \<and> \<not> isFailed))"

definition dependencyFailed :: "WorkflowExecutionResult \<Rightarrow> JobDependency \<Rightarrow> bool" where
  "dependencyFailed wr dep = (depStatus wr dep = Some Failed)"

definition failedWarning :: "WorkflowExecutionResult \<Rightarrow> JobDependency list \<Rightarrow> string" where
  "failedWarning wr failedDependencies =
     ''Warning: Continuing despite failed dependencies: ''
     @ join '', '' (map (\<lambda>dep. sourceJobId dep @ '' ('' @ depStatusText ''undefined'' (depStatus wr dep) @ '')'')
                      failedDependencies)"

definition waitingLine :: "WorkflowExecutionResult \<Rightarrow> JobDependency list \<Rightarrow> string" where
  "waitingLine wr pendingDependencies =
     ''Waiting for dependencies: ''
     @ join '', '' (map (\<lambda>dep. sourceJobId dep @ '' ('' @ depStatusText ''unknown'' (depStatus wr dep) @ '')'')
                      pendingDependencies)"

definition pushLog :: "string \<Rightarrow> JobExecutionResult \<Rightarrow> JobExecutionResult" where
  "pushLog line r = r\<lparr>logs := logs r @ [line]\<rparr>"

text \<open>
  \<^verbatim>\<open>executeFromNode\<close> from its call to its first wait, for the node id \<open>n\<close>. The
  first component is the error with which the promise of the call rejects at once. When
  the gate is passed, \<^verbatim>\<open>executeJob\<close> marks the job result running and calls the
  handler, and the call becomes a task. A node id found among the jobs has a job result
  in every state a run reaches; reading a missing one raises a TypeError.
\<close>

definition executeFromNode ::
  "RealWorkflowExecutor \<Rightarrow> world \<Rightarrow> BackendJobsConfig \<Rightarrow> string \<Rightarrow> engine_state
     \<Rightarrow> thrown option \<times> engine_state" where
  "executeFromNode this w workflowConfig n s =
     (if n \<in> executedNodes s then (None, s)
      else
        (case find (\<lambda>j. nodeId j = n) (jobs workflowConfig) of
           None \<Rightarrow>
             (Some (Error (''Job with ID '' @ n @ '' not found. Available jobs: ''
                           @ join '', '' (map nodeId (jobs workflowConfig)))), s)
         | Some job \<Rightarrow>
             (let wr = wfResult s;
                  pendingDependencies =
                    filter (dependencyPending (executedNodes s) wr) (dependencies job);
                  failedDependencies = filter (dependencyFailed wr) (dependencies job)
              in if map_get (jobResults wr) n = None then
                   (Some (Error (if failedDependencies \<noteq> [] \<or> pendingDependencies \<noteq> []
                                 then ''Cannot read properties of undefined (reading 'logs')''
                                 else ''Cannot set properties of undefined (setting 'status')'')), s)
                 else
                   (let wr1 = (if failedDependencies \<noteq> []
                               then updateJobResult n (pushLog (failedWarning wr failedDependencies)) wr
                               else wr)
                    in if pendingDependencies \<noteq> [] then
                         (None,
                          s\<lparr>wfResult :=
                              updateJobResult n (pushLog (waitingLine wr1 pendingDependencies)) wr1\<rparr>)
                       else
                         (let wr2 = updateJobResult n (\<lambda>r. r\<lparr>status := Running\<rparr>) wr1
                          in case map_get (jobResults wr2) n of
                               None \<Rightarrow> (None, s)
                             | Some jobResult \<Rightarrow>
                                 (let h = callHandler this w job jobResult wr2
                                  in (None,
                                      s\<lparr>wfResult := updateJobResult n (\<lambda>r. snd (snd h)) wr2,
                                        tasks := tasks s @ [(job, Handling (fst h) (fst (snd h)))],
                                        dispatched := dispatched s @ [(n, executedNodes s)]\<rparr>)))))))"

text \<open>
  \<^verbatim>\<open>nextJobs.map(id => this.executeFromNode(id, ...))\<close>: the calls start one after the
  other; \<^verbatim>\<open>Promise.allSettled\<close> discards their rejections.
\<close>

fun followAll ::
  "RealWorkflowExecutor \<Rightarrow> world \<Rightarrow> BackendJobsConfig \<Rightarrow> string list \<Rightarrow> engine_state
     \<Rightarrow> engine_state" where
  "followAll this w workflowConfig [] s = s"
| "followAll this w workflowConfig (n # ns) s =
     followAll this w workflowConfig ns (snd (executeFromNode this w workflowConfig n s))"

text \<open>\<^verbatim>\<open>status = "failed"; error = ...\<close>, written by both \<^verbatim>\<open>catch\<close> blocks.\<close>

definition markFailed :: "thrown \<Rightarrow> JobExecutionResult \<Rightarrow> JobExecutionResult" where
  "markFailed e r = r\<lparr>status := Failed, error := Some (thrown_message e)\<rparr>"

text \<open>
  One step of the task at position \<open>i\<close>: the handler's promise settles and its payload is
  stored; \<^verbatim>\<open>executeJob\<close> resumes and marks the job completed or failed;
  \<^verbatim>\<open>executeFromNode\<close> resumes, adds the node to the executed set (in its \<^verbatim>\<open>catch\<close>
  block after marking the job failed once more) and calls \<^verbatim>\<open>getNextJobs\<close>; it resumes
  again, starts the calls for the next ids and from then on only waits for them.
\<close>

definition resume ::
  "RealWorkflowExecutor \<Rightarrow> world \<Rightarrow> BackendJobsConfig \<Rightarrow> nat \<Rightarrow> engine_state \<Rightarrow> engine_state" where
  "resume this w workflowConfig i s =
     (case tasks s ! i of
        (job, Handling thr payload) \<Rightarrow>
          s\<lparr>wfResult :=
              (case payload of
                 None \<Rightarrow> wfResult s
               | Some v \<Rightarrow> updateJobResult (nodeId job) (\<lambda>r. r\<lparr>result := v\<rparr>) (wfResult s)),
            tasks := (tasks s)[i := (job, Settled thr)]\<rparr>
      | (job, Settled thr) \<Rightarrow>
          s\<lparr>wfResult :=
              (case thr of
                 None \<Rightarrow> updateJobResult (nodeId job) (\<lambda>r. r\<lparr>status := Completed\<rparr>) (wfResult s)
               | Some e \<Rightarrow> updateJobResult (nodeId job) (markFailed e) (wfResult s)),
            tasks := (tasks s)[i := (job, Returned thr)]\<rparr>
      | (job, Returned thr) \<Rightarrow>
          (let wr = (case thr of
                       None \<Rightarrow> wfResult s
                     | Some e \<Rightarrow> updateJobResult (nodeId job) (markFailed e) (wfResult s));
               nextJobs = (case map_get (jobResults wr) (nodeId job) of
                             None \<Rightarrow> []
                           | Some jobResult \<Rightarrow> getNextJobs job jobResult)
           in s\<lparr>executedNodes := insert (nodeId job) (executedNodes s),
                wfResult := wr,
                tasks := (tasks s)[i := (job, Following nextJobs)]\<rparr>)
      | (job, Following nextJobs) \<Rightarrow>
          followAll this w workflowConfig nextJobs
            (s\<lparr>tasks := take i (tasks s) @ drop (Suc i) (tasks s)\<rparr>))"

text \<open>
  The measure of a state: a bound on the steps still to come. A task whose node is about
  to enter the executed set can start at most one call per connection, and each of those
  calls becomes a task only for a job outside the executed set.
\<close>

definition maxConnections :: "BackendJobsConfig \<Rightarrow> nat" where
  "maxConnections workflowConfig = sum_list (map (\<lambda>j. length (connections j)) (jobs workflowConfig))"

fun callWeight :: "nat \<Rightarrow> nat \<Rightarrow> nat" where
  "callWeight k 0 = 0"
| "callWeight k (Suc m) = 4 + k * callWeight k m"

definition unexecuted :: "BackendJobsConfig \<Rightarrow> string set \<Rightarrow> nat" where
  "unexecuted workflowConfig executed = card (set (map nodeId (jobs workflowConfig)) - executed)"

fun taskWeight :: "BackendJobsConfig \<Rightarrow> string set \<Rightarrow> BackendJob \<times> task_phase \<Rightarrow> nat" where
  "taskWeight c ex (job, Handling thr payload) =
     4 + length (connections job) * callWeight (maxConnections c) (unexecuted c (insert (nodeId job) ex))"
| "taskWeight c ex (job, Settled thr) =
     3 + length (connections job) * callWeight (maxConnections c) (unexecuted c (insert (nodeId job) ex))"
| "taskWeight c ex (job, Returned thr) =
     2 + length (connections job) * callWeight (maxConnections c) (unexecuted c (insert (nodeId job) ex))"
| "taskWeight c ex (job, Following nextJobs) =
     1 + length nextJobs * callWeight (maxConnections c) (unexecuted c ex)"

definition stateWeight :: "BackendJobsConfig \<Rightarrow> engine_state \<Rightarrow> nat" where
  "stateWeight c s = sum_list (map (taskWeight c (executedNodes s)) (tasks s))"

section \<open>The engine: a run ends\<close>

lemma callWeight_mono: "m \<le> m' \<Longrightarrow> callWeight k m \<le> callWeight k m'"
proof (induction m' arbitrary: m)
  case 0
  then show ?case by simp
next
  case (Suc m')
  show ?case
  proof (cases m)
    case 0
    then show ?thesis by simp
  next
    case (Suc l)
    with Suc.prems have "l \<le> m'" by simp
    then have "callWeight k l \<le> callWeight k m'" by (rule Suc.IH)
    then show ?thesis using Suc by simp
  qed
qed

lemma unexecuted_mono: "ex \<subseteq> ex' \<Longrightarrow> unexecuted c ex' \<le> unexecuted c ex"
  unfolding unexecuted_def by (intro card_mono) auto

lemma unexecuted_insert:
  assumes "job \<in> set (jobs c)" and "nodeId job \<notin> ex"
  shows "unexecuted c ex = Suc (unexecuted c (insert (nodeId job) ex))"
proof -
  have "nodeId job \<in> set (map nodeId (jobs c)) - ex"
    using assms by auto
  moreover have "set (map nodeId (jobs c)) - insert (nodeId job) ex
                   = (set (map nodeId (jobs c)) - ex) - {nodeId job}"
    by auto
  ultimately show ?thesis
    unfolding unexecuted_def
    using card_Suc_Diff1 [of "set (map nodeId (jobs c)) - ex" "nodeId job"] by simp
qed

lemma taskWeight_mono: "ex \<subseteq> ex' \<Longrightarrow> taskWeight c ex' t \<le> taskWeight c ex t"
proof -
  assume sub: "ex \<subseteq> ex'"
  obtain job phase where t: "t = (job, phase)" by (cases t)
  have a: "callWeight (maxConnections c) (unexecuted c (insert (nodeId job) ex'))
             \<le> callWeight (maxConnections c) (unexecuted c (insert (nodeId job) ex))"
    using sub by (intro callWeight_mono unexecuted_mono) auto
  have b: "callWeight (maxConnections c) (unexecuted c ex')
             \<le> callWeight (maxConnections c) (unexecuted c ex)"
    using sub by (intro callWeight_mono unexecuted_mono)
  have a': "length (connections job)
              * callWeight (maxConnections c) (unexecuted c (insert (nodeId job) ex'))
            \<le> length (connections job)
              * callWeight (maxConnections c) (unexecuted c (insert (nodeId job) ex))"
    using a by (rule mult_le_mono2)
  have b': "length ns * callWeight (maxConnections c) (unexecuted c ex')
            \<le> length ns * callWeight (maxConnections c) (unexecuted c ex)" for ns :: "string list"
    using b by (rule mult_le_mono2)
  show ?thesis
  proof (cases phase)
    case (Handling thr payload)
    then show ?thesis using a' by (simp add: t)
  next
    case (Settled thr)
    then show ?thesis using a' by (simp add: t)
  next
    case (Returned thr)
    then show ?thesis using a' by (simp add: t)
  next
    case (Following ns)
    then show ?thesis using b' [of ns] by (simp add: t)
  qed
qed

lemma connections_le_max:
  "job \<in> set (jobs c) \<Longrightarrow> length (connections job) \<le> maxConnections c"
proof -
  assume "job \<in> set (jobs c)"
  then have "length (connections job) \<in> set (map (\<lambda>j. length (connections j)) (jobs c))"
    by simp
  then show ?thesis
    using member_le_sum_list [of "length (connections job)" "map (\<lambda>j. length (connections j)) (jobs c)"]
    by (simp add: maxConnections_def)
qed

lemma find_job:
  "find (\<lambda>j. nodeId j = n) js = Some job \<Longrightarrow> job \<in> set js \<and> nodeId job = n"
  by (induction js) (auto split: if_splits)

lemma executeFromNode_executed:
  "executedNodes (snd (executeFromNode this w c n s)) = executedNodes s"
  by (simp add: executeFromNode_def Let_def split: option.splits)

lemma executeFromNode_tasks:
  "tasks (snd (executeFromNode this w c n s)) = tasks s
   \<or> (\<exists>job thr p. tasks (snd (executeFromNode this w c n s)) = tasks s @ [(job, Handling thr p)]
         \<and> job \<in> set (jobs c) \<and> nodeId job = n \<and> n \<notin> executedNodes s)"
proof (cases "n \<in> executedNodes s")
  case True
  then show ?thesis by (simp add: executeFromNode_def)
next
  case notExecuted: False
  show ?thesis
  proof (cases "find (\<lambda>j. nodeId j = n) (jobs c)")
    case None
    then show ?thesis using notExecuted by (simp add: executeFromNode_def)
  next
    case (Some job)
    then have "job \<in> set (jobs c) \<and> nodeId job = n" by (rule find_job)
    then show ?thesis
      using notExecuted Some
      by (simp add: executeFromNode_def Let_def split: option.splits)
  qed
qed

lemma new_task_weight:
  assumes "job \<in> set (jobs c)" and "nodeId job \<notin> ex"
  shows "taskWeight c ex (job, Handling thr p) \<le> callWeight (maxConnections c) (unexecuted c ex)"
proof -
  have "length (connections job) * callWeight (maxConnections c) (unexecuted c (insert (nodeId job) ex))
          \<le> maxConnections c * callWeight (maxConnections c) (unexecuted c (insert (nodeId job) ex))"
    using connections_le_max [OF assms(1)] by (rule mult_le_mono1)
  then show ?thesis
    by (simp add: unexecuted_insert [OF assms])
qed

lemma executeFromNode_weight:
  "stateWeight c (snd (executeFromNode this w c n s))
     \<le> stateWeight c s + callWeight (maxConnections c) (unexecuted c (executedNodes s))"
proof -
  consider "tasks (snd (executeFromNode this w c n s)) = tasks s"
    | job thr p where "tasks (snd (executeFromNode this w c n s)) = tasks s @ [(job, Handling thr p)]"
        "job \<in> set (jobs c)" "nodeId job \<notin> executedNodes s"
    using executeFromNode_tasks [of this w c n s] by blast
  then show ?thesis
  proof cases
    case 1
    then show ?thesis by (simp add: stateWeight_def executeFromNode_executed)
  next
    case 2
    then show ?thesis
      using new_task_weight [OF 2(2,3), of thr p]
      by (simp add: stateWeight_def executeFromNode_executed)
  qed
qed

lemma followAll_executed:
  "executedNodes (followAll this w c ns s) = executedNodes s"
  by (induction ns arbitrary: s) (simp_all add: executeFromNode_executed)

lemma followAll_weight:
  "stateWeight c (followAll this w c ns s)
     \<le> stateWeight c s + length ns * callWeight (maxConnections c) (unexecuted c (executedNodes s))"
proof (induction ns arbitrary: s)
  case Nil
  then show ?case by simp
next
  case (Cons n ns)
  have "stateWeight c (followAll this w c ns (snd (executeFromNode this w c n s)))
          \<le> stateWeight c (snd (executeFromNode this w c n s))
              + length ns * callWeight (maxConnections c) (unexecuted c (executedNodes s))"
    using Cons.IH [of "snd (executeFromNode this w c n s)"]
    by (simp add: executeFromNode_executed)
  then show ?case
    using executeFromNode_weight [of c this w n s] by simp
qed

lemma sum_list_update_less:
  fixes f g :: "'a \<Rightarrow> nat"
  assumes "i < length xs" and "\<And>x. g x \<le> f x" and "g y < f (xs ! i)"
  shows "sum_list (map g (xs[i := y])) < sum_list (map f xs)"
  using assms(1,3)
proof (induction xs arbitrary: i)
  case Nil
  then show ?case by simp
next
  case (Cons x xs)
  have le: "sum_list (map g zs) \<le> sum_list (map f zs)" for zs
    by (induction zs) (simp_all add: add_mono assms(2))
  show ?case
  proof (cases i)
    case 0
    then show ?thesis using Cons.prems le [of xs] by simp
  next
    case (Suc j)
    then have "sum_list (map g (xs[j := y])) < sum_list (map f xs)"
      using Cons.prems Cons.IH [of j] by simp
    then show ?thesis using Suc assms(2) [of x] by simp
  qed
qed

lemma sum_list_remove:
  fixes f :: "'a \<Rightarrow> nat"
  assumes "i < length xs"
  shows "sum_list (map f (take i xs @ drop (Suc i) xs)) + f (xs ! i) = sum_list (map f xs)"
proof -
  have "xs = take i xs @ xs ! i # drop (Suc i) xs"
    using assms by (rule id_take_nth_drop)
  then have "sum_list (map f xs) = sum_list (map f (take i xs @ xs ! i # drop (Suc i) xs))"
    by simp
  then show ?thesis by simp
qed

lemma getNextJobs_length: "length (getNextJobs job r) \<le> length (connections job)"
  by (simp add: getNextJobs_def pushMatching_filter Let_def)

lemma resume_decreases:
  assumes "i < length (tasks s)"
  shows "stateWeight c (resume this w c i s) < stateWeight c s"
proof -
  obtain job phase where t: "tasks s ! i = (job, phase)" by (cases "tasks s ! i")
  show ?thesis
  proof (cases phase)
    case (Handling thr payload)
    have "sum_list (map (taskWeight c (executedNodes s)) ((tasks s)[i := (job, Settled thr)]))
            < sum_list (map (taskWeight c (executedNodes s)) (tasks s))"
      using assms by (rule sum_list_update_less) (simp_all add: t Handling)
    then show ?thesis
      by (simp add: resume_def t Handling stateWeight_def)
  next
    case (Settled thr)
    have "sum_list (map (taskWeight c (executedNodes s)) ((tasks s)[i := (job, Returned thr)]))
            < sum_list (map (taskWeight c (executedNodes s)) (tasks s))"
      using assms by (rule sum_list_update_less) (simp_all add: t Settled)
    then show ?thesis
      by (simp add: resume_def t Settled stateWeight_def)
  next
    case (Returned thr)
    define nexts where "nexts = (case map_get (jobResults
        (case thr of None \<Rightarrow> wfResult s
         | Some e \<Rightarrow> updateJobResult (nodeId job) (markFailed e) (wfResult s))) (nodeId job) of
          None \<Rightarrow> [] | Some jobResult \<Rightarrow> getNextJobs job jobResult)"
    have len: "length nexts \<le> length (connections job)"
      by (simp add: nexts_def getNextJobs_length split: option.splits)
    define cw where
      "cw = callWeight (maxConnections c) (unexecuted c (insert (nodeId job) (executedNodes s)))"
    have prod: "length nexts * cw \<le> length (connections job) * cw"
      using len by (rule mult_le_mono1)
    have "taskWeight c (insert (nodeId job) (executedNodes s)) (job, Following nexts)
            = 1 + length nexts * cw"
      by (simp add: cw_def)
    moreover have "taskWeight c (executedNodes s) (tasks s ! i) = 2 + length (connections job) * cw"
      by (simp add: t Returned cw_def)
    ultimately have one: "taskWeight c (insert (nodeId job) (executedNodes s)) (job, Following nexts)
                      < taskWeight c (executedNodes s) (tasks s ! i)"
      using prod by linarith
    have "sum_list (map (taskWeight c (insert (nodeId job) (executedNodes s)))
                     ((tasks s)[i := (job, Following nexts)]))
            < sum_list (map (taskWeight c (executedNodes s)) (tasks s))"
      using assms
    proof (rule sum_list_update_less)
      show "taskWeight c (insert (nodeId job) (executedNodes s)) x \<le> taskWeight c (executedNodes s) x" for x
        by (rule taskWeight_mono) auto
      show "taskWeight c (insert (nodeId job) (executedNodes s)) (job, Following nexts)
              < taskWeight c (executedNodes s) (tasks s ! i)"
        by (rule one)
    qed
    then show ?thesis
      by (simp add: resume_def t Returned stateWeight_def Let_def nexts_def)
  next
    case (Following nexts)
    define s1 where "s1 = s\<lparr>tasks := take i (tasks s) @ drop (Suc i) (tasks s)\<rparr>"
    have rest: "stateWeight c s1 + taskWeight c (executedNodes s) (tasks s ! i) = stateWeight c s"
      using sum_list_remove [OF assms, of "taskWeight c (executedNodes s)"]
      by (simp add: stateWeight_def s1_def)
    have "stateWeight c (followAll this w c nexts s1)
            \<le> stateWeight c s1
                + length nexts * callWeight (maxConnections c) (unexecuted c (executedNodes s))"
      using followAll_weight [of c this w nexts s1] by (simp add: s1_def)
    then have "stateWeight c (followAll this w c nexts s1) < stateWeight c s"
      using rest by (simp add: t Following)
    then show ?thesis
      by (simp add: resume_def t Following s1_def)
  qed
qed

text \<open>
  A run to its end: while calls are in progress, the one chosen by the schedule makes
  its next step. The schedule stands for the order in which the promises settle: each
  entry picks a task (taken modulo the number of tasks), and when the schedule is used up
  the first task is taken.
\<close>

function run ::
  "RealWorkflowExecutor \<Rightarrow> world \<Rightarrow> BackendJobsConfig \<Rightarrow> nat list \<Rightarrow> engine_state
     \<Rightarrow> engine_state" where
  "run this w workflowConfig schedule s =
     (if tasks s = [] then s
      else run this w workflowConfig (tl schedule)
             (resume this w workflowConfig
                ((case schedule of [] \<Rightarrow> 0 | i # rest \<Rightarrow> i) mod length (tasks s)) s))"
  by pat_completeness auto
termination run
proof (relation "measure (\<lambda>(this, w, c, schedule, s). stateWeight c s)", goal_cases)
  case 1
  then show ?case by simp
next
  case (2 this w workflowConfig schedule s)
  then have "(case schedule of [] \<Rightarrow> 0 | i # rest \<Rightarrow> i) mod length (tasks s) < length (tasks s)"
    by simp
  then show ?case using resume_decreases by simp
qed

declare run.simps [simp del]

section \<open>The engine: executeWorkflow\<close>

definition initialJobResult :: "BackendJob \<Rightarrow> JobExecutionResult" where
  "initialJobResult job =
     \<lparr> jobId = nodeId job, rtype = jtype job, status = Pending, result = JUndefined,
       error = None, logs = [] \<rparr>"

definition initialResults :: "BackendJob list \<Rightarrow> (string \<times> JobExecutionResult) list" where
  "initialResults js = foldl (\<lambda>m job. map_set m (nodeId job) (initialJobResult job)) [] js"

definition initialState :: "BackendJobsConfig \<Rightarrow> engine_state" where
  "initialState workflowConfig =
     \<lparr> executedNodes = {},
       wfResult = \<lparr> wstatus = WRunning, jobResults = initialResults (jobs workflowConfig) \<rparr>,
       tasks = [],
       dispatched = [] \<rparr>"

text \<open>
  The \<^verbatim>\<open>try\<close> block of \<^verbatim>\<open>executeWorkflow\<close> up to the end of the traversal: the state
  when the promise of the first call has resolved, or the error thrown. A null or empty
  start node id is refused.
\<close>

definition traverse ::
  "RealWorkflowExecutor \<Rightarrow> world \<Rightarrow> nat list \<Rightarrow> BackendJobsConfig \<Rightarrow> thrown + engine_state" where
  "traverse this w schedule workflowConfig =
     (case startNode (executionFlow workflowConfig) of
        None \<Rightarrow> Inl (Error ''No start node found in workflow'')
      | Some startNodeId \<Rightarrow>
          if startNodeId = [] then Inl (Error ''No start node found in workflow'')
          else
            (let r = executeFromNode this w workflowConfig startNodeId (initialState workflowConfig)
             in case fst r of
                  Some e \<Rightarrow> Inl e
                | None \<Rightarrow> Inr (run this w workflowConfig schedule (snd r))))"

text \<open>
  \<^verbatim>\<open>executeWorkflow\<close>: the workflow result it returns, or the error it rethrows. Both
  branches of the final analysis set the status to completed.
\<close>

definition executeWorkflow ::
  "RealWorkflowExecutor \<Rightarrow> world \<Rightarrow> nat list \<Rightarrow> BackendJobsConfig
     \<Rightarrow> thrown + WorkflowExecutionResult" where
  "executeWorkflow this w schedule workflowConfig =
     (case traverse this w schedule workflowConfig of
        Inl e \<Rightarrow> Inl e
      | Inr s \<Rightarrow>
          (let results = map snd (jobResults (wfResult s));
               failedJobs = filter (\<lambda>j. status j = Failed) results
           in if length failedJobs > 0
              then Inr ((wfResult s)\<lparr>wstatus := WCompleted\<rparr>)
              else Inr ((wfResult s)\<lparr>wstatus := WCompleted\<rparr>)))"

definition mkJob ::
  "string \<Rightarrow> string \<Rightarrow> (string \<times> string) list \<Rightarrow> string list \<Rightarrow> BackendJob" where
  "mkJob t i conns deps =
     \<lparr> jtype = t, nodeId = i, attributes = [],
       connections = map (\<lambda>(target, tag). \<lparr>targetJobId = target, condition = tag\<rparr>) conns,
       dependencies = map (\<lambda>d. \<lparr>sourceJobId = d, dep_condition = ''out''\<rparr>) deps,
       isConditional = False \<rparr>"

text \<open>The diamond A->B, A->C, B->D, C->D with a Start, two AddTask jobs and an End.\<close>

definition diamond :: BackendJobsConfig where
  "diamond =
     \<lparr> jobs = [mkJob ''Start'' ''A'' [(''B'', ''out''), (''C'', ''out'')] [],
                mkJob ''AddTask'' ''B'' [(''D'', ''out'')] [''A''],
                mkJob ''AddTask'' ''C'' [(''D'', ''out'')] [''A''],
                mkJob ''End'' ''D'' [] [''B'', ''C'']],
       executionFlow = \<lparr> startNode = Some ''A'', totalJobs = 4, hasConditionalFlow = False \<rparr> \<rparr>"

text \<open>
  The order in which the continuations run when B and C, started one after the other,
  need the same number of turns of the job queue: they advance in step.
\<close>

definition inStep :: "nat list" where
  "inStep = [0, 0, 0, 0, 0, 1, 0, 1, 0, 1, 0, 0]"

section \<open>The engine: what the claims speak of\<close>

text \<open>
  Every recorded handler call of a job found in the job list was made with all declared
  dependency ids of that job in the executed set.
\<close>

definition gateRespected :: "BackendJobsConfig \<Rightarrow> engine_state \<Rightarrow> bool" where
  "gateRespected c s =
     list_all (\<lambda>(n, ex). case find (\<lambda>j. nodeId j = n) (jobs c) of
                             None \<Rightarrow> True
                           | Some job \<Rightarrow> list_all (\<lambda>dep. sourceJobId dep \<in> ex) (dependencies job))
       (dispatched s)"

text \<open>The log lines of the job result stored under an id.\<close>

definition jobLogs :: "engine_state \<Rightarrow> string \<Rightarrow> string list" where
  "jobLogs s n = (case map_get (jobResults (wfResult s)) n of None \<Rightarrow> [] | Some r \<Rightarrow> logs r)"

definition quietWorld :: world where
  "quietWorld = \<lparr> fetchOutcome = (\<lambda>r. Rejected (Error ''Failed to fetch'')),
                    runScript = (\<lambda>job ctx. Inr JUndefined),
                    numberGreater = (\<lambda>a b. False) \<rparr>"

definition diamondEnd :: BackendJob where
  "diamondEnd = mkJob ''End'' ''D'' [] [''B'', ''C'']"

definition waitingState :: engine_state where
  "waitingState = (initialState diamond)\<lparr>executedNodes := {''A'', ''B''}\<rparr>"

definition readyState :: engine_state where
  "readyState =
     \<lparr> executedNodes = {''A'', ''B'', ''C''},
       wfResult =
         updateJobResult ''B'' (\<lambda>r. r\<lparr>status := Failed\<rparr>)
           (updateJobResult ''C'' (\<lambda>r. r\<lparr>status := Completed\<rparr>)
              (wfResult (initialState diamond))),
       tasks = [],
       dispatched = [] \<rparr>"

definition diamondFinal :: engine_state where
  "diamondFinal =
     run (constructor None) quietWorld diamond inStep
       (snd (executeFromNode (constructor None) quietWorld diamond ''A'' (initialState diamond)))"

section \<open>The engine: example runs\<close>




definition ghostConfig :: BackendJobsConfig where
  "ghostConfig =
     \<lparr> jobs = [mkJob ''Start'' ''S'' [(''ghost'', ''out'')] []],
       executionFlow = \<lparr> startNode = Some ''S'', totalJobs = 1, hasConditionalFlow = False \<rparr> \<rparr>"

definition lostStart :: BackendJobsConfig where
  "lostStart =
     \<lparr> jobs = [mkJob ''End'' ''E'' [] []],
       executionFlow = \<lparr> startNode = Some ''S'', totalJobs = 1, hasConditionalFlow = False \<rparr> \<rparr>"

text \<open>
  Start -> A, with A a Condition job that asks whether the payload stored under
  \<^verbatim>\<open>start_result\<close> is not empty, and the branches true -> T and false -> F.
\<close>

definition branching :: BackendJobsConfig where
  "branching =
     \<lparr> jobs = [mkJob ''Start'' ''S'' [(''A'', ''out'')] [],
                (mkJob ''Condition'' ''A'' [(''T'', ''true''), (''F'', ''false'')] [''S''])
                  \<lparr>attributes :=
                     [(''conditions'',
                       JArr [JObj [(''field'', JStr ''start_result''),
                                   (''operator'', JStr ''is_not_empty'')]])],
                   isConditional := True\<rparr>,
                mkJob ''End'' ''T'' [] [''A''],
                mkJob ''End'' ''F'' [] [''A'']],
       executionFlow = \<lparr> startNode = Some ''S'', totalJobs = 4, hasConditionalFlow = True \<rparr> \<rparr>"

section \<open>Tree validation (WorkflowNode.tsx)\<close>

text \<open>
  The React Flow \<^verbatim>\<open>Node\<close> and \<^verbatim>\<open>Edge\<close> with the fields \<^verbatim>\<open>TreeValidator\<close> reads:
  a node's id, its optional type and the label in its data (of type unknown); an edge's
  source, target and optional source handle.
\<close>

record FlowNode =
  flow_id :: string
  flow_type :: "string option"
  flow_label :: jsval

record FlowEdge =
  flow_source :: string
  flow_target :: string
  flow_sourceHandle :: "string option"

text \<open>
  The nodes and edges \<^verbatim>\<open>WorkflowCanvas\<close> makes of the workflow's nodes and edges and
  hands to \<^verbatim>\<open>validateTree\<close>. (Nodes flagged as virtual roots in their configuration,
  which is not part of the node record here, are hidden before.)
\<close>

fun typeName :: "NodeType \<Rightarrow> string" where
  "typeName StartNode = ''StartNode''"
| "typeName AddTaskNode = ''AddTaskNode''"
| "typeName ConditionNode = ''ConditionNode''"
| "typeName APICallNode = ''APICallNode''"
| "typeName ScriptNode = ''ScriptNode''"
| "typeName RunServer = ''runServer''"
| "typeName RunVM = ''runVM''"
| "typeName EndNode = ''EndNode''"

definition reactFlowNode :: "WorkflowNode \<Rightarrow> FlowNode" where
  "reactFlowNode node =
     \<lparr> flow_id = node_id node, flow_type = Some (typeName (node_type node)),
       flow_label = JStr (node_label node) \<rparr>"

definition reactFlowEdge :: "WorkflowEdge \<Rightarrow> FlowEdge" where
  "reactFlowEdge edge =
     \<lparr> flow_source = edge_from edge, flow_target = edge_to edge,
       flow_sourceHandle = Some (edge_output edge) \<rparr>"

text \<open>
  \<^verbatim>\<open>detectCycles\<close>: every node id becomes a key with an empty neighbour array, every
  edge pushes its target onto the array of its source, and the search is the one of
  \<^verbatim>\<open>wouldCreateCycle\<close>, started at every unvisited key.
\<close>

definition pushNeighbor :: "adjacency \<Rightarrow> string \<Rightarrow> string \<Rightarrow> adjacency" where
  "pushNeighbor graph k w = map (\<lambda>(k', ns). if k' = k then (k', ns @ [w]) else (k', ns)) graph"

definition detectCyclesGraph :: "FlowNode list \<Rightarrow> FlowEdge list \<Rightarrow> adjacency" where
  "detectCyclesGraph nodes edges =
     foldl (\<lambda>graph edge.
              pushNeighbor (ensureKey graph (flow_source edge)) (flow_source edge) (flow_target edge))
       (foldl (\<lambda>graph node. map_set graph (flow_id node) []) [] nodes)
       edges"

definition detectCycles :: "FlowNode list \<Rightarrow> FlowEdge list \<Rightarrow> bool" where
  "detectCycles nodes edges =
     (let graph = detectCyclesGraph nodes edges
      in checkKeys graph (map fst graph) ({}, {}))"

text \<open>The two error texts of \<^verbatim>\<open>validateTree\<close>.\<close>

definition multipleParentsError :: "string \<Rightarrow> string" where
  "multipleParentsError name =
     ''Node '' @ [CHR 0x22] @ name @ [CHR 0x22]
     @ '' has multiple parents from non-conditional sources. Each node can only have one parent, unless connected through conditional branching.''"

definition cycleError :: string where
  "cycleError = ''Workflow contains cycles. Tree structure must be acyclic.''"

text \<open>\<^verbatim>\<open>node?.data?.label || nodeId.slice(-8)\<close>, as the template prints it.\<close>

definition nodeName :: "FlowNode list \<Rightarrow> string \<Rightarrow> string" where
  "nodeName nodes nid =
     js_String
       (js_or (case find (\<lambda>n. flow_id n = nid) nodes of
                 None \<Rightarrow> JUndefined
               | Some node \<Rightarrow> flow_label node)
              (JStr (drop (length nid - 8) nid)))"

text \<open>An edge that leaves the true or the false handle of a Condition node.\<close>

definition isConditionalEdge :: "FlowNode list \<Rightarrow> FlowEdge \<Rightarrow> bool" where
  "isConditionalEdge nodes edge =
     ((case find (\<lambda>n. flow_id n = flow_source edge) nodes of
         None \<Rightarrow> False
       | Some sourceNode \<Rightarrow> flow_type sourceNode = Some ''ConditionNode'')
      \<and> (flow_sourceHandle edge = Some ''true'' \<or> flow_sourceHandle edge = Some ''false''))"

text \<open>
  The body of the loop over the edges: the count of the edge's target goes up by one in
  the map \<^verbatim>\<open>targetCounts\<close>, and the target enters the set \<^verbatim>\<open>conditionalTargets\<close>
  when the edge is conditional.
\<close>

definition trackEdge ::
  "FlowNode list \<Rightarrow> (string \<times> nat) list \<times> string set \<Rightarrow> FlowEdge
     \<Rightarrow> (string \<times> nat) list \<times> string set" where
  "trackEdge nodes st edge =
     (map_set (fst st) (flow_target edge)
        ((case map_get (fst st) (flow_target edge) of None \<Rightarrow> 0 | Some c \<Rightarrow> c) + 1),
      if isConditionalEdge nodes edge then insert (flow_target edge) (snd st) else snd st)"

text \<open>The loop over the entries of \<^verbatim>\<open>targetCounts\<close>.\<close>

fun multipleParents ::
  "FlowNode list \<Rightarrow> string set \<Rightarrow> (string \<times> nat) list \<Rightarrow> string list \<Rightarrow> string list" where
  "multipleParents nodes conditionalTargets [] errs = errs"
| "multipleParents nodes conditionalTargets ((nid, cnt) # rest) errs =
     multipleParents nodes conditionalTargets rest
       (if cnt > 1 \<and> nid \<notin> conditionalTargets
        then errs @ [multipleParentsError (nodeName nodes nid)]
        else errs)"

definition validateTree :: "FlowNode list \<Rightarrow> FlowEdge list \<Rightarrow> ValidationResult" where
  "validateTree nodes edges =
     (if length nodes = 0 then \<lparr> isValid = True, errors = [] \<rparr>
      else
        (let tracked = foldl (trackEdge nodes) ([], {}) edges;
             errs = multipleParents nodes (snd tracked) (fst tracked) [];
             errs = (if detectCycles nodes edges then errs @ [cycleError] else errs)
         in \<lparr> isValid = (length errs = 0), errors = errs \<rparr>))"

text \<open>The edge relation of a list of edges, and the edges that enter a node.\<close>

definition flowEdges :: "FlowEdge list \<Rightarrow> (string \<times> string) set" where
  "flowEdges edges = (\<lambda>e. (flow_source e, flow_target e)) ` set edges"

definition incoming :: "FlowEdge list \<Rightarrow> string \<Rightarrow> FlowEdge list" where
  "incoming edges t = filter (\<lambda>e. flow_target e = t) edges"

definition condNode :: "string \<Rightarrow> WorkflowNode" where
  "condNode i = \<lparr> node_id = i, node_type = ConditionNode, node_label = ''Condition'',
      handles = [\<lparr> handle_id = ''in'', handle_type = Input, required = True \<rparr>,
                 \<lparr> handle_id = ''true'', handle_type = Output, required = False \<rparr>,
                 \<lparr> handle_id = ''false'', handle_type = Output, required = False \<rparr>] \<rparr>"

definition twoStarts :: "WorkflowNode list" where
  "twoStarts = [startNodeA, startNodeB]"

definition mixedNodes :: "WorkflowNode list" where
  "mixedNodes = [startNodeA, taskNode ''a'', condNode ''c'', taskNode ''t'']"

definition mixedEdges :: "WorkflowEdge list" where
  "mixedEdges =
     [mkEdge ''s1'' ''a'', mkEdge ''s1'' ''c'', mkEdge ''s1'' ''t'', mkEdge ''a'' ''t'',
      (mkEdge ''c'' ''t'')\<lparr>edge_output := ''true''\<rparr>]"

definition loopNodes :: "WorkflowNode list" where
  "loopNodes = [startNodeA, taskNode ''a'', taskNode ''b'']"

definition loopEdges :: "WorkflowEdge list" where
  "loopEdges = [mkEdge ''s1'' ''a'', mkEdge ''a'' ''b'', mkEdge ''b'' ''a'']"

definition diamondNodes :: "WorkflowNode list" where
  "diamondNodes = [startNodeA, taskNode ''a'', taskNode ''b'', taskNode ''c'']"

definition diamondEdges :: "WorkflowEdge list" where
  "diamondEdges = [mkEdge ''s1'' ''a'', mkEdge ''s1'' ''b'', mkEdge ''a'' ''c'', mkEdge ''b'' ''c'']"

section \<open>Routing: proofs\<close>

text \<open>
  Claim C5. A conditional job whose result carries the boolean \<open>b\<close> as
  \<^verbatim>\<open>conditionResult\<close> is followed along exactly the connections tagged with the text
  of \<open>b\<close>, in their order, so no connection tagged with the opposite text is
  followed; a non-conditional job is followed along exactly the connections tagged
  \<^verbatim>\<open>out\<close> or \<^verbatim>\<open>default\<close>.
\<close>

theorem getNextJobs_routing:
  "(isConditional job \<and> js_get (result jobResult) ''conditionResult'' = JBool b \<longrightarrow>
      getNextJobs job jobResult =
        map targetJobId
          (filter (\<lambda>c. condition c = (if b then ''true'' else ''false'')) (connections job)))
   \<and> (\<not> isConditional job \<longrightarrow>
      getNextJobs job jobResult =
        map targetJobId
          (filter (\<lambda>c. condition c = ''out'' \<or> condition c = ''default'') (connections job)))"
  by (simp add: getNextJobs_def pushMatching_filter Let_def)

theorem getNextJobs_routing_witness:
  "isConditional conditionJob
   \<and> js_get (result conditionTrue) ''conditionResult'' = JBool True
   \<and> getNextJobs conditionJob conditionTrue = [''T'']"
  using getNextJobs_routing [of conditionJob conditionTrue True]
  by (simp add: conditionJob_def conditionTrue_def)

section \<open>Handler: APICall, proofs\<close>

lemma show_60000: "show_nat 60000 = ''60000''"
  by (simp add: show_nat.simps)

text \<open>
  Claim C9 fails as stated: with no timeout attribute and a default-constructed executor
  the abort timer is set to 60000 ms, not to 30000 ms.
\<close>

theorem api_timeout_counterexample:
  "attr apiJob ''timeout'' = JUndefined
   \<and> req_timeout (fetchRequest (constructor None) apiJob) = JNum 60000
   \<and> req_timeout (fetchRequest (constructor None) apiJob) \<noteq> JNum 30000
   \<and> fst (executeAPICallJob (constructor None) (\<lambda>r. Aborted) apiJob (emptyResult ''api'' ''APICall''))
       = Some (Error ''API call timed out after 60000ms'')"
  by (simp add: apiJob_def attr_def fetchRequest_def requestTimeout_def constructor_def
      opt_or_def js_or_def executeAPICallJob_def apiCatch_def show_int_def show_60000 Let_def)

text \<open>
  Claim C9, amended. An APICall job without a timeout attribute is fetched under the
  executor's \<^verbatim>\<open>apiTimeout\<close>, which is 60000 ms unless the constructor was given
  another value; when the abort timer fires, the handler throws the error
  \<^verbatim>\<open>API call timed out after <timeout>ms\<close> with the decimal digits of that value.
  The text of the error is stated for a timeout that is a safe integer, and for a url
  and a method that the log line written before the request can print.
\<close>

theorem api_default_timeout:
  assumes "attr job ''timeout'' = JUndefined"
  shows "req_timeout (fetchRequest (constructor options) job)
           = JNum (case options of None \<Rightarrow> 60000
                   | Some os \<Rightarrow> (case opt_apiTimeout os of None \<Rightarrow> 60000 | Some t \<Rightarrow> t))
         \<and> (js_truthy (attr job ''url'')
              \<and> printable (attr job ''url'')
              \<and> printable (default_to (attr job ''method'') (JStr ''GET''))
              \<and> safeInteger (case options of None \<Rightarrow> 60000
                     | Some os \<Rightarrow> (case opt_apiTimeout os of None \<Rightarrow> 60000 | Some t \<Rightarrow> t))
              \<and> fetch (fetchRequest (constructor options) job) = Aborted \<longrightarrow>
            fst (executeAPICallJob (constructor options) fetch job jobResult)
              = Some (Error (''API call timed out after ''
                  @ show_int (case options of None \<Rightarrow> 60000
                     | Some os \<Rightarrow> (case opt_apiTimeout os of None \<Rightarrow> 60000 | Some t \<Rightarrow> t))
                  @ ''ms'')))"
  using assms
  by (simp add: fetchRequest_def requestTimeout_def constructor_def opt_or_def js_or_def
      executeAPICallJob_def apiCatch_def Let_def split: option.splits)

theorem api_default_timeout_witness:
  "attr apiJob ''timeout'' = JUndefined
   \<and> js_truthy (attr apiJob ''url'')
   \<and> printable (attr apiJob ''url'')
   \<and> printable (default_to (attr apiJob ''method'') (JStr ''GET''))
   \<and> safeInteger 60000
   \<and> req_timeout (fetchRequest (constructor None) apiJob) = JNum 60000
   \<and> fst (executeAPICallJob (constructor None) (\<lambda>r. Aborted) apiJob (emptyResult ''api'' ''APICall''))
       = Some (Error ''API call timed out after 60000ms'')"
  using api_default_timeout [of apiJob None "\<lambda>r. Aborted" "emptyResult ''api'' ''APICall''"]
  by (simp add: apiJob_def attr_def show_int_def show_60000 default_to_def safeInteger_def)

section \<open>Handler: SendEmail, proofs\<close>






section \<open>Handler: Condition, proofs\<close>

lemma evalOperator_table:
  "evalOperator gt fv operator v =
     (case lookupOperator gt operator of
        None \<Rightarrow> Inl (Error (''Unknown operator: '' @ js_String operator))
      | Some p \<Rightarrow> Inr (p fv v))"
proof (cases operator)
  case (JStr s)
  then show ?thesis
    by (simp add: evalOperator_def lookupOperator_def operatorTable_def)
qed (simp_all add: evalOperator_def lookupOperator_def)

lemma evaluateCondition_known:
  "conditionKnown gt c \<Longrightarrow> evaluateCondition gt ctx c = Inr (conditionHolds gt ctx c)"
  by (auto simp add: conditionKnown_def evaluateCondition_def evalOperator_table
      conditionHolds_def conditionFieldValue_def Let_def split: option.splits)

lemma evaluateCondition_unknown:
  "\<not> conditionKnown gt c \<Longrightarrow> \<exists>e. evaluateCondition gt ctx c = Inl e"
  by (auto simp add: conditionKnown_def evaluateCondition_def evalOperator_table Let_def)

lemma mapConditions_known:
  "\<forall>c\<in>set cs. conditionKnown gt c \<Longrightarrow>
     mapConditions gt ctx cs = Inr (map (conditionHolds gt ctx) cs)"
  by (induction cs) (simp_all add: evaluateCondition_known)

lemma mapConditions_unknown:
  "\<exists>c\<in>set cs. \<not> conditionKnown gt c \<Longrightarrow> \<exists>e. mapConditions gt ctx cs = Inl e"
proof (induction cs)
  case Nil
  then show ?case by simp
next
  case (Cons c cs)
  show ?case
  proof (cases "conditionKnown gt c")
    case True
    with Cons.prems have "\<exists>c\<in>set cs. \<not> conditionKnown gt c" by auto
    then obtain e where "mapConditions gt ctx cs = Inl e" using Cons.IH by blast
    then show ?thesis by (simp add: evaluateCondition_known [OF True])
  next
    case False
    then obtain e where "evaluateCondition gt ctx c = Inl e"
      using evaluateCondition_unknown by blast
    then show ?thesis by simp
  qed
qed

lemma map_of_set_field: "map_of (set_field fs k v) = (map_of fs)(k \<mapsto> v)"
  by (induction fs) (auto simp add: fun_eq_iff)

lemma map_of_addJobResults:
  "map_of (addJobResults rs ctx) = map_of ctx ++ map_of (rev (concat (map contextWrites rs)))"
proof (induction rs arbitrary: ctx)
  case Nil
  then show ?case by simp
next
  case (Cons e rs)
  obtain jid jr where e: "e = (jid, jr)" by (cases e)
  show ?case
  proof (cases "js_truthy (result jr)")
    case True
    then show ?thesis
      by (simp add: e Cons.IH contextWrites_def map_of_set_field map_add_def fun_eq_iff
          split: option.splits)
  next
    case False
    then show ?thesis by (simp add: e Cons.IH contextWrites_def)
  qed
qed

text \<open>
  Claim C7. For a Condition job with a non-empty condition list, on values that can be
  printed, field names that are no inherited members of the context object, and ASCII
  texts: the context holds, for every job result with a payload, that payload under the
  job id and under the lower-cased job type followed by \<^verbatim>\<open>_result\<close> (a later job
  result wins); when every condition names one of the eight operators, the handler
  succeeds and stores as \<^verbatim>\<open>conditionResult\<close> the conjunction of the per-condition
  predicates when the logic attribute is AND (or absent) and their disjunction otherwise;
  when some condition is null, undefined or names another operator, the handler throws
  and leaves the job result as it was.
\<close>

theorem condition_handler:
  assumes "attr job ''conditions'' = JArr cs" and "cs \<noteq> []"
    and "printable (default_to (attr job ''logic'') (JStr ''AND''))"
    and "contextModelled workflowResult"
    and "\<forall>c\<in>set cs. conditionModelled (getJobResultsForScript workflowResult) c"
  shows "map_of (getJobResultsForScript workflowResult)
           = map_of (rev (concat (map contextWrites (jobResults workflowResult))))
         \<and> ((\<forall>c\<in>set cs. conditionKnown gt c) \<longrightarrow>
               fst (executeConditionJob gt job jobResult workflowResult) = None
               \<and> js_get (result (snd (executeConditionJob gt job jobResult workflowResult)))
                    ''conditionResult''
                  = JBool (if default_to (attr job ''logic'') (JStr ''AND'') = JStr ''AND''
                           then (\<forall>c\<in>set cs. conditionHolds gt (getJobResultsForScript workflowResult) c)
                           else (\<exists>c\<in>set cs. conditionHolds gt (getJobResultsForScript workflowResult) c)))
         \<and> ((\<exists>c\<in>set cs. \<not> conditionKnown gt c) \<longrightarrow>
               (\<exists>e. executeConditionJob gt job jobResult workflowResult = (Some e, jobResult)))"
proof (intro conjI impI)
  show "map_of (getJobResultsForScript workflowResult)
          = map_of (rev (concat (map contextWrites (jobResults workflowResult))))"
    by (simp add: getJobResultsForScript_def map_of_addJobResults)
next
  assume known: "\<forall>c\<in>set cs. conditionKnown gt c"
  have m: "mapConditions gt (getJobResultsForScript workflowResult) cs
             = Inr (map (conditionHolds gt (getJobResultsForScript workflowResult)) cs)"
    using known by (rule mapConditions_known)
  show "fst (executeConditionJob gt job jobResult workflowResult) = None"
    using assms(1,2) by (simp add: executeConditionJob_def m Let_def)
  show "js_get (result (snd (executeConditionJob gt job jobResult workflowResult)))
          ''conditionResult''
        = JBool (if default_to (attr job ''logic'') (JStr ''AND'') = JStr ''AND''
                 then (\<forall>c\<in>set cs. conditionHolds gt (getJobResultsForScript workflowResult) c)
                 else (\<exists>c\<in>set cs. conditionHolds gt (getJobResultsForScript workflowResult) c))"
    using assms(1,2)
    by (simp add: executeConditionJob_def m Let_def list_all_iff list_ex_iff)
next
  assume "\<exists>c\<in>set cs. \<not> conditionKnown gt c"
  then obtain e where "mapConditions gt (getJobResultsForScript workflowResult) cs = Inl e"
    using mapConditions_unknown by blast
  then show "\<exists>e. executeConditionJob gt job jobResult workflowResult = (Some e, jobResult)"
    using assms(1,2) by (simp add: executeConditionJob_def Let_def)
qed

lemma contextX_context:
  "getJobResultsForScript contextX = [(''x'', JStr ''1''), (''script_result'', JStr ''1'')]"
  by (simp add: getJobResultsForScript_def contextX_def emptyResult_def toLowerCase_def
      lower_char_def)

lemma contextX_modelled: "contextModelled contextX"
  by (simp add: contextModelled_def contextX_def emptyResult_def ascii_def)

lemma xCondition_known: "conditionKnown neverGreater xCondition"
  by (simp add: conditionKnown_def xCondition_def lookupOperator_def operatorTable_def)

lemma xCondition_modelled: "conditionModelled (getJobResultsForScript contextX) xCondition"
  by (simp add: contextX_context conditionModelled_def xCondition_def conditionFieldValue_def
      objectPrototypeMembers_def ascii_def)

lemma xCondition_holds: "conditionHolds neverGreater (getJobResultsForScript contextX) xCondition"
  by (simp add: contextX_context conditionHolds_def xCondition_def lookupOperator_def
      operatorTable_def conditionFieldValue_def)

lemma conditionJobX_conditions: "attr conditionJobX ''conditions'' = JArr [xCondition]"
  by (simp add: attr_def conditionJobX_def)

lemma conditionJobX_logic: "default_to (attr conditionJobX ''logic'') (JStr ''AND'') = JStr ''AND''"
  by (simp add: attr_def conditionJobX_def default_to_def)

lemma conditionJobX_next:
  "js_get (result r) ''conditionResult'' = JBool True \<Longrightarrow> getNextJobs conditionJobX r = [''T'']"
  by (simp add: getNextJobs_def conditionJobX_def)

lemma matchesJob_unknown:
  "attr matchesJob ''conditions''
     = JArr [JObj [(''field'', JStr ''x''), (''operator'', JStr ''matches''), (''value'', JStr ''1'')]]
   \<and> \<not> conditionKnown neverGreater
         (JObj [(''field'', JStr ''x''), (''operator'', JStr ''matches''), (''value'', JStr ''1'')])
   \<and> default_to (attr matchesJob ''logic'') (JStr ''AND'') = JStr ''AND''
   \<and> conditionModelled (getJobResultsForScript contextX)
         (JObj [(''field'', JStr ''x''), (''operator'', JStr ''matches''), (''value'', JStr ''1'')])"
  by (simp add: attr_def matchesJob_def conditionKnown_def lookupOperator_def operatorTable_def
      default_to_def contextX_context conditionModelled_def conditionFieldValue_def
      objectPrototypeMembers_def ascii_def)

lemma lower_Start: "toLowerCase ''Start'' = ''start''"
  by (simp add: toLowerCase_def lower_char_def)

lemma trim_object: "trim ''[object Object]'' = ''[object Object]''"
  by (simp add: trim_def is_space_def)

text \<open>
  The run of Start -> A, A a Condition job with the branches true -> T and false -> F,
  whose condition asks that the payload of the Start job is not empty: the handlers of
  S, A and T are called, F stays pending.
\<close>

lemma branching_run:
  "case traverse (constructor None) quietWorld [] branching of
     Inl e \<Rightarrow> False
   | Inr s \<Rightarrow>
       map fst (dispatched s) = [''S'', ''A'', ''T'']
       \<and> ''F'' \<notin> executedNodes s
       \<and> map_option (\<lambda>jr. js_get (result jr) ''conditionResult'')
             (map_get (jobResults (wfResult s)) ''A'') = Some (JBool True)
       \<and> map (\<lambda>(k, jr). (k, status jr)) (jobResults (wfResult s))
         = [(''S'', Completed), (''A'', Completed), (''T'', Completed), (''F'', Pending)]"
  by (simp add: traverse_def initialState_def initialResults_def run.simps
      resume_def executeFromNode_def branching_def mkJob_def map_get_def updateJobResult_def
      callHandler_def Let_def initialJobResult_def getNextJobs_def dependencyPending_def
      dependencyFailed_def depStatus_def markFailed_def pushLog_def quietWorld_def
      executeConditionJob_def attr_def default_to_def getJobResultsForScript_def
      evaluateCondition_def evalOperator_def startJobResult_def endJobResult_def
      lower_Start trim_object)

theorem condition_handler_witness:
  "attr conditionJobX ''conditions'' = JArr [xCondition]
   \<and> printable (default_to (attr conditionJobX ''logic'') (JStr ''AND''))
   \<and> contextModelled contextX
   \<and> conditionModelled (getJobResultsForScript contextX) xCondition
   \<and> conditionKnown neverGreater xCondition
   \<and> fst (executeConditionJob neverGreater conditionJobX (emptyResult ''A'' ''Condition'') contextX) = None
   \<and> js_get (result (snd (executeConditionJob neverGreater conditionJobX
                 (emptyResult ''A'' ''Condition'') contextX))) ''conditionResult'' = JBool True
   \<and> getNextJobs conditionJobX
        (snd (executeConditionJob neverGreater conditionJobX (emptyResult ''A'' ''Condition'') contextX))
      = [''T'']
   \<and> (\<exists>e. executeConditionJob neverGreater matchesJob (emptyResult ''A'' ''Condition'') contextX
            = (Some e, emptyResult ''A'' ''Condition''))
   \<and> (\<exists>s. traverse (constructor None) quietWorld [] branching = Inr s
          \<and> map fst (dispatched s) = [''S'', ''A'', ''T'']
          \<and> ''F'' \<notin> executedNodes s
          \<and> map_option (\<lambda>jr. js_get (result jr) ''conditionResult'')
                (map_get (jobResults (wfResult s)) ''A'') = Some (JBool True)
          \<and> map (\<lambda>(k, jr). (k, status jr)) (jobResults (wfResult s))
              = [(''S'', Completed), (''A'', Completed), (''T'', Completed), (''F'', Pending)])"
proof -
  have a: "fst (executeConditionJob neverGreater conditionJobX (emptyResult ''A'' ''Condition'') contextX) = None
     \<and> js_get (result (snd (executeConditionJob neverGreater conditionJobX
                 (emptyResult ''A'' ''Condition'') contextX))) ''conditionResult'' = JBool True"
    using condition_handler [OF conditionJobX_conditions, of contextX neverGreater
        "emptyResult ''A'' ''Condition''"]
      xCondition_known xCondition_holds conditionJobX_logic contextX_modelled xCondition_modelled
    by simp
  have b: "\<exists>e. executeConditionJob neverGreater matchesJob (emptyResult ''A'' ''Condition'') contextX
            = (Some e, emptyResult ''A'' ''Condition'')"
    using condition_handler [of matchesJob _ contextX neverGreater "emptyResult ''A'' ''Condition''"]
      matchesJob_unknown contextX_modelled
    by simp
  have c: "\<exists>s. traverse (constructor None) quietWorld [] branching = Inr s
          \<and> map fst (dispatched s) = [''S'', ''A'', ''T'']
          \<and> ''F'' \<notin> executedNodes s
          \<and> map_option (\<lambda>jr. js_get (result jr) ''conditionResult'')
                (map_get (jobResults (wfResult s)) ''A'') = Some (JBool True)
          \<and> map (\<lambda>(k, jr). (k, status jr)) (jobResults (wfResult s))
              = [(''S'', Completed), (''A'', Completed), (''T'', Completed), (''F'', Pending)]"
    using branching_run
    by (cases "traverse (constructor None) quietWorld [] branching") simp_all
  show ?thesis
    using a b c conditionJobX_conditions xCondition_known conditionJobX_next conditionJobX_logic
      contextX_modelled xCondition_modelled
    by simp
qed

section \<open>Cycle check: proofs\<close>

lemma stack_restore:
  "\<not> fst (hasCycle graph node st) \<Longrightarrow> snd (snd (hasCycle graph node st)) = snd st"
  "\<not> fst (hasCycleFor graph ns st) \<Longrightarrow> snd (snd (hasCycleFor graph ns st)) = snd st"
proof (induction graph node st and graph ns st rule: hasCycle_hasCycleFor.induct)
  case (1 graph node visited recursionStack)
  then show ?case by (auto simp add: Let_def split: if_splits)
next
  case (2 graph st)
  then show ?case by simp
next
  case (3 graph neighbor rest st)
  then show ?case by (auto simp add: Let_def split: if_splits)
qed

lemma closed_reach:
  assumes "(u, w) \<in> (edgesOf graph)\<^sup>*" and "u \<in> B"
    and "\<forall>u\<in>B. \<forall>w\<in>set (neighbors graph u). w \<in> B"
  shows "w \<in> B"
  using assms by (induction rule: rtrancl_induct) (auto simp add: edgesOf_def)

lemma settled_insert:
  assumes "settled graph B" and "set (neighbors graph n) \<subseteq> B" and "n \<notin> B"
  shows "settled graph (insert n B)"
proof -
  have closed: "\<forall>u\<in>B. \<forall>w\<in>set (neighbors graph u). w \<in> B"
    using assms(1) by (simp add: settled_def)
  have "(n, n) \<notin> (edgesOf graph)\<^sup>+"
  proof
    assume "(n, n) \<in> (edgesOf graph)\<^sup>+"
    then obtain w where w: "(n, w) \<in> edgesOf graph" "(w, n) \<in> (edgesOf graph)\<^sup>*"
      by (meson tranclD)
    from w(1) assms(2) have "w \<in> B" by (auto simp add: edgesOf_def)
    then have "n \<in> B" using closed_reach [OF w(2) _ closed] by blast
    with assms(3) show False by simp
  qed
  with assms show ?thesis by (auto simp add: settled_def)
qed

lemma false_spec:
  "\<not> fst (hasCycle graph node st) \<Longrightarrow> settled graph (fst st - snd st) \<Longrightarrow>
     fst st \<subseteq> fst (snd (hasCycle graph node st))
     \<and> node \<in> fst (snd (hasCycle graph node st)) - snd st
     \<and> settled graph (fst (snd (hasCycle graph node st)) - snd st)"
  "\<not> fst (hasCycleFor graph ns st) \<Longrightarrow> settled graph (fst st - snd st) \<Longrightarrow>
     fst st \<subseteq> fst (snd (hasCycleFor graph ns st))
     \<and> set ns \<subseteq> fst (snd (hasCycleFor graph ns st)) - snd st
     \<and> settled graph (fst (snd (hasCycleFor graph ns st)) - snd st)"
proof (induction graph node st and graph ns st rule: hasCycle_hasCycleFor.induct)
  case (1 graph node visited recursionStack)
  show ?case
  proof (cases "node \<in> recursionStack")
    case True
    with "1.prems" show ?thesis by simp
  next
    case notStack: False
    show ?thesis
    proof (cases "node \<in> visited")
      case True
      with notStack "1.prems" show ?thesis by simp
    next
      case notVisited: False
      define r where "r = hasCycleFor graph (neighbors graph node)
                            (insert node visited, insert node recursionStack)"
      have res: "hasCycle graph node (visited, recursionStack)
                   = (if fst r then r else (False, fst (snd r), snd (snd r) - {node}))"
        using notStack notVisited by (simp add: r_def Let_def)
      with "1.prems"(1) have nf: "\<not> fst r" by (auto split: if_splits)
      have same: "insert node visited - insert node recursionStack = visited - recursionStack"
        using notVisited by auto
      have ih: "insert node visited \<subseteq> fst (snd r)
                \<and> set (neighbors graph node) \<subseteq> fst (snd r) - insert node recursionStack
                \<and> settled graph (fst (snd r) - insert node recursionStack)"
        using "1.IH" [OF notStack notVisited] nf "1.prems"(2) same by (simp add: r_def)
      have black: "fst (snd r) - recursionStack
                     = insert node (fst (snd r) - insert node recursionStack)"
        using ih notStack by auto
      have "settled graph (fst (snd r) - recursionStack)"
        unfolding black using ih by (intro settled_insert) auto
      with ih notStack nf res show ?thesis by auto
    qed
  qed
next
  case (2 graph st)
  then show ?case by simp
next
  case (3 graph neighbor rest st)
  define r where "r = hasCycle graph neighbor st"
  have res: "hasCycleFor graph (neighbor # rest) st
               = (if fst r then r else hasCycleFor graph rest (snd r))"
    by (simp add: r_def Let_def)
  with "3.prems"(1) have nf: "\<not> fst r" and nf2: "\<not> fst (hasCycleFor graph rest (snd r))"
    by (auto split: if_splits)
  have stack: "snd (snd r) = snd st"
    using nf stack_restore(1) by (simp add: r_def)
  have ih1: "fst st \<subseteq> fst (snd r) \<and> neighbor \<in> fst (snd r) - snd st
             \<and> settled graph (fst (snd r) - snd st)"
    using "3.IH"(1) nf "3.prems"(2) by (simp add: r_def)
  have ih2: "fst (snd r) \<subseteq> fst (snd (hasCycleFor graph rest (snd r)))
             \<and> set rest \<subseteq> fst (snd (hasCycleFor graph rest (snd r))) - snd st
             \<and> settled graph (fst (snd (hasCycleFor graph rest (snd r))) - snd st)"
    using "3.IH"(2) [OF r_def nf nf2] ih1 stack by simp
  from ih1 ih2 nf res show ?case by auto
qed

lemma true_spec:
  "fst (hasCycle graph node st) \<Longrightarrow> \<forall>s\<in>snd st. (s, node) \<in> (edgesOf graph)\<^sup>+ \<Longrightarrow>
     \<exists>v. (v, v) \<in> (edgesOf graph)\<^sup>+"
  "fst (hasCycleFor graph ns st) \<Longrightarrow> \<forall>s\<in>snd st. \<forall>w\<in>set ns. (s, w) \<in> (edgesOf graph)\<^sup>+ \<Longrightarrow>
     \<exists>v. (v, v) \<in> (edgesOf graph)\<^sup>+"
proof (induction graph node st and graph ns st rule: hasCycle_hasCycleFor.induct)
  case (1 graph node visited recursionStack)
  show ?case
  proof (cases "node \<in> recursionStack")
    case True
    with "1.prems"(2) show ?thesis by auto
  next
    case notStack: False
    show ?thesis
    proof (cases "node \<in> visited")
      case True
      with notStack "1.prems" show ?thesis by simp
    next
      case notVisited: False
      have run: "fst (hasCycleFor graph (neighbors graph node)
                        (insert node visited, insert node recursionStack))"
        using "1.prems"(1) notStack notVisited by (auto simp add: Let_def split: if_splits)
      have "\<forall>s\<in>insert node recursionStack. \<forall>w\<in>set (neighbors graph node).
              (s, w) \<in> (edgesOf graph)\<^sup>+"
      proof (intro ballI)
        fix s w
        assume s: "s \<in> insert node recursionStack" and w: "w \<in> set (neighbors graph node)"
        from w have e: "(node, w) \<in> edgesOf graph" by (simp add: edgesOf_def)
        show "(s, w) \<in> (edgesOf graph)\<^sup>+"
        proof (cases "s = node")
          case True
          with e show ?thesis by auto
        next
          case False
          with s "1.prems"(2) have "(s, node) \<in> (edgesOf graph)\<^sup>+" by auto
          then show ?thesis using e by (rule trancl_into_trancl)
        qed
      qed
      with "1.IH" [OF notStack notVisited run] show ?thesis by simp
    qed
  qed
next
  case (2 graph st)
  then show ?case by simp
next
  case (3 graph neighbor rest st)
  show ?case
  proof (cases "fst (hasCycle graph neighbor st)")
    case True
    with "3.IH"(1) "3.prems"(2) show ?thesis by simp
  next
    case False
    then have run: "fst (hasCycleFor graph rest (snd (hasCycle graph neighbor st)))"
      using "3.prems"(1) by (simp add: Let_def)
    have "snd (snd (hasCycle graph neighbor st)) = snd st"
      using False by (rule stack_restore(1))
    with "3.IH"(2) [OF refl False run] "3.prems"(2) show ?thesis by simp
  qed
qed

lemma neighbors_ensureKey: "neighbors (ensureKey graph k) u = neighbors graph u"
  by (auto simp add: neighbors_def ensureKey_def map_add_def split: option.splits)

lemma map_of_addNeighbor:
  "map_of (addNeighbor graph k w) u =
     map_option (\<lambda>ns. if u = k then (if w \<in> set ns then ns else ns @ [w]) else ns) (map_of graph u)"
  by (induction graph) (auto simp add: addNeighbor_def)

lemma edgesOf_addEdge: "edgesOf (addEdge graph u w) = insert (u, w) (edgesOf graph)"
proof -
  have key: "map_of (ensureKey graph u) u \<noteq> None"
    by (cases "map_of graph u") (simp_all add: ensureKey_def)
  have "set (neighbors (addEdge graph u w) x)
          = (if x = u then insert w (set (neighbors graph x)) else set (neighbors graph x))" for x
  proof (cases "x = u")
    case True
    then show ?thesis
      using key neighbors_ensureKey [of graph u u]
      by (auto simp add: addEdge_def neighbors_def map_of_addNeighbor split: option.splits)
  next
    case False
    then show ?thesis
      using neighbors_ensureKey [of graph u x]
      by (auto simp add: addEdge_def neighbors_def map_of_addNeighbor split: option.splits)
  qed
  then show ?thesis by (auto simp add: edgesOf_def split: if_splits)
qed

lemma edgesOf_foldl:
  "edgesOf (foldl (\<lambda>graph edge. addEdge graph (edge_from edge) (edge_to edge)) graph es)
     = edgesOf graph \<union> (\<lambda>e. (edge_from e, edge_to e)) ` set es"
  by (induction es arbitrary: graph) (auto simp add: edgesOf_addEdge)

lemma edgesOf_empty: "edgesOf [] = {}"
  by (simp add: edgesOf_def neighbors_def)

lemma edgesOf_buildGraph:
  "edgesOf (buildGraph existingEdges fromNodeId toNodeId)
     = augmentedEdges fromNodeId toNodeId existingEdges"
  by (simp add: buildGraph_def edgesOf_addEdge edgesOf_foldl augmentedEdges_def edgesOf_empty)

lemma checkKeys_true:
  "checkKeys graph ks st \<Longrightarrow> snd st = {} \<Longrightarrow> \<exists>v. (v, v) \<in> (edgesOf graph)\<^sup>+"
proof (induction ks arbitrary: st)
  case Nil
  then show ?case by simp
next
  case (Cons k ks)
  show ?case
  proof (cases "k \<in> fst st")
    case True
    with Cons.prems(1) have "checkKeys graph ks st" by simp
    then show ?thesis using Cons.prems(2) by (rule Cons.IH)
  next
    case notVisited: False
    show ?thesis
    proof (cases "fst (hasCycle graph k st)")
      case True
      moreover have "\<forall>s\<in>snd st. (s, k) \<in> (edgesOf graph)\<^sup>+"
        using Cons.prems(2) by simp
      ultimately show ?thesis by (rule true_spec(1))
    next
      case nf: False
      have "checkKeys graph ks (snd (hasCycle graph k st))"
        using Cons.prems(1) notVisited nf by (simp add: Let_def)
      moreover have "snd (snd (hasCycle graph k st)) = {}"
        using stack_restore(1) [OF nf] Cons.prems(2) by simp
      ultimately show ?thesis by (rule Cons.IH)
    qed
  qed
qed

lemma checkKeys_false:
  "\<not> checkKeys graph ks st \<Longrightarrow> snd st = {} \<Longrightarrow> settled graph (fst st) \<Longrightarrow>
     \<exists>B. fst st \<subseteq> B \<and> set ks \<subseteq> B \<and> settled graph B"
proof (induction ks arbitrary: st)
  case Nil
  then show ?case by auto
next
  case (Cons k ks)
  show ?case
  proof (cases "k \<in> fst st")
    case True
    with Cons.prems(1) have "\<not> checkKeys graph ks st" by simp
    from Cons.IH [OF this Cons.prems(2) Cons.prems(3)]
    obtain B where "fst st \<subseteq> B \<and> set ks \<subseteq> B \<and> settled graph B" by blast
    with True show ?thesis by auto
  next
    case notVisited: False
    define st1 where "st1 = snd (hasCycle graph k st)"
    have nf: "\<not> fst (hasCycle graph k st)"
      using Cons.prems(1) notVisited by (simp add: Let_def split: if_splits)
    have rest: "\<not> checkKeys graph ks st1"
      using Cons.prems(1) notVisited nf by (simp add: st1_def Let_def)
    have stack: "snd st1 = {}"
      using stack_restore(1) [OF nf] Cons.prems(2) by (simp add: st1_def)
    have "settled graph (fst st - snd st)"
      using Cons.prems(2,3) by simp
    from false_spec(1) [OF nf this]
    have spec: "fst st \<subseteq> fst st1 \<and> k \<in> fst st1 \<and> settled graph (fst st1)"
      using Cons.prems(2) by (simp add: st1_def)
    then have "settled graph (fst st1)" by simp
    from Cons.IH [OF rest stack this]
    obtain B where "fst st1 \<subseteq> B \<and> set ks \<subseteq> B \<and> settled graph B" by blast
    with spec show ?thesis by auto
  qed
qed

text \<open>
  Claim C8. \<^verbatim>\<open>wouldCreateCycle\<close> answers true exactly when the existing edges together
  with the proposed edge contain a directed cycle, that is, when some node reaches itself
  along one or more of these edges.
\<close>

theorem wouldCreateCycle_iff_cycle:
  "wouldCreateCycle fromNodeId toNodeId existingEdges
     \<longleftrightarrow> (\<exists>v. (v, v) \<in> (augmentedEdges fromNodeId toNodeId existingEdges)\<^sup>+)"
proof -
  define graph where "graph = buildGraph existingEdges fromNodeId toNodeId"
  have edges: "edgesOf graph = augmentedEdges fromNodeId toNodeId existingEdges"
    by (simp add: graph_def edgesOf_buildGraph)
  have run: "wouldCreateCycle fromNodeId toNodeId existingEdges
               = checkKeys graph (map fst graph) ({}, {})"
    by (simp add: wouldCreateCycle_def graph_def Let_def)
  have start: "snd (({}, {}) :: string set \<times> string set) = {}"
    by simp
  have initial: "settled graph (fst (({}, {}) :: string set \<times> string set))"
    by (simp add: settled_def)
  show ?thesis
  proof
    assume "wouldCreateCycle fromNodeId toNodeId existingEdges"
    then have "checkKeys graph (map fst graph) ({}, {})"
      by (simp only: run)
    then have "\<exists>v. (v, v) \<in> (edgesOf graph)\<^sup>+"
      using start by (rule checkKeys_true)
    then show "\<exists>v. (v, v) \<in> (augmentedEdges fromNodeId toNodeId existingEdges)\<^sup>+"
      by (simp only: edges)
  next
    assume "\<exists>v. (v, v) \<in> (augmentedEdges fromNodeId toNodeId existingEdges)\<^sup>+"
    then obtain v where cyc: "(v, v) \<in> (edgesOf graph)\<^sup>+"
      by (auto simp only: edges)
    show "wouldCreateCycle fromNodeId toNodeId existingEdges"
    proof (rule ccontr)
      assume "\<not> wouldCreateCycle fromNodeId toNodeId existingEdges"
      then have "\<not> checkKeys graph (map fst graph) ({}, {})"
        using run by blast
      from checkKeys_false [OF this start initial]
      obtain B where B: "set (map fst graph) \<subseteq> B" "settled graph B"
        by blast
      from cyc obtain w where "(v, w) \<in> edgesOf graph"
        by (meson tranclD)
      then have "neighbors graph v \<noteq> []"
        by (auto simp add: edgesOf_def)
      then have "v \<in> graphNodes graph"
        using neighbors_outside by blast
      with B(1) have "v \<in> B"
        by (auto simp add: graphNodes_def)
      with B(2) cyc show False
        by (simp add: settled_def)
    qed
  qed
qed

lemma graph_cab:
  "buildGraph [edgeAB, edgeBC] ''c'' ''a'' = [(''a'', [''b'']), (''b'', [''c'']), (''c'', [''a''])]"
  by (simp add: buildGraph_def addEdge_def ensureKey_def addNeighbor_def edgeAB_def edgeBC_def)

lemma graph_acb:
  "buildGraph [edgeAB, edgeBC] ''a'' ''c'' = [(''a'', [''b'', ''c'']), (''b'', [''c''])]"
  by (simp add: buildGraph_def addEdge_def ensureKey_def addNeighbor_def edgeAB_def edgeBC_def)

lemma closing_edge: "wouldCreateCycle ''c'' ''a'' [edgeAB, edgeBC]"
  by (simp add: wouldCreateCycle_def graph_cab neighbors_def Let_def)

lemma shortcut_edge: "\<not> wouldCreateCycle ''a'' ''c'' [edgeAB, edgeBC]"
  by (simp add: wouldCreateCycle_def graph_acb neighbors_def Let_def)

theorem wouldCreateCycle_iff_cycle_witness:
  "wouldCreateCycle ''c'' ''a'' [edgeAB, edgeBC]
   \<and> (\<exists>v. (v, v) \<in> (augmentedEdges ''c'' ''a'' [edgeAB, edgeBC])\<^sup>+)
   \<and> \<not> wouldCreateCycle ''a'' ''c'' [edgeAB, edgeBC]
   \<and> \<not> (\<exists>v. (v, v) \<in> (augmentedEdges ''a'' ''c'' [edgeAB, edgeBC])\<^sup>+)"
  using wouldCreateCycle_iff_cycle [of "''c''" "''a''" "[edgeAB, edgeBC]"]
    wouldCreateCycle_iff_cycle [of "''a''" "''c''" "[edgeAB, edgeBC]"]
    closing_edge shortcut_edge
  by blast

section \<open>Workflow validation: proofs\<close>

lemma missingInputs_eq:
  "missingInputs n edges hs errs =
     errs @ map (\<lambda>h. missingInputError (node_label n))
              (filter (\<lambda>h. \<not> (\<exists>e\<in>set edges. edge_to e = node_id n \<and> edge_input e = handle_id h)) hs)"
  by (induction hs arbitrary: errs) (simp_all add: list_ex_iff)

lemma missingConnections_eq:
  "missingConnections nodes edges errs =
     errs @ concat (map (\<lambda>n. map (\<lambda>h. missingInputError (node_label n))
                              (filter (unconnected edges n) (handles n))) nodes)"
proof (induction nodes arbitrary: errs)
  case Nil
  then show ?case by simp
next
  case (Cons n nodes)
  have "filter (\<lambda>h. (handle_type h = Input \<and> required h)
                      \<and> \<not> (\<exists>e\<in>set edges. edge_to e = node_id n \<and> edge_input e = handle_id h))
          (handles n)
        = filter (unconnected edges n) (handles n)"
    by (rule filter_cong) (auto simp add: unconnected_def)
  then show ?case by (simp add: Cons.IH missingInputs_eq conj_commute)
qed

text \<open>
  \<^verbatim>\<open>validateWorkflow\<close> reports one error when the node list has no Start node and
  one error for every required input handle that no edge enters, in node order, and it
  answers valid exactly when there is a Start node and every required input handle is
  entered by an edge.
\<close>

lemma validateWorkflow_reports:
  "errors (validateWorkflow nodes edges) =
     (if \<exists>n\<in>set nodes. node_type n = StartNode then []
      else [''Workflow must have at least one Start node''])
     @ concat (map (\<lambda>n. map (\<lambda>h. missingInputError (node_label n))
                            (filter (unconnected edges n) (handles n))) nodes)
   \<and> (isValid (validateWorkflow nodes edges) \<longleftrightarrow>
        (\<exists>n\<in>set nodes. node_type n = StartNode)
        \<and> (\<forall>n\<in>set nodes. \<forall>h\<in>set (handles n). \<not> unconnected edges n h))"
proof -
  have start: "(length (filter (\<lambda>n. node_type n = StartNode) nodes) = 0)
                 = (\<not> (\<exists>n\<in>set nodes. node_type n = StartNode))"
    by (auto simp add: filter_empty_conv)
  show ?thesis
    by (auto simp add: validateWorkflow_def Let_def missingConnections_eq start filter_empty_conv)
qed

section \<open>Dependency gate: proofs\<close>

lemma map_get_update:
  "map_get (jobResults (updateJobResult k f wr)) k' =
     (if k' = k then map_option f (map_get (jobResults wr) k') else map_get (jobResults wr) k')"
proof -
  have "map_of (map (\<lambda>(k', r). if k' = k then (k', f r) else (k', r)) m) k' =
          (if k' = k then map_option f (map_of m k') else map_of m k')" for m
    by (induction m) auto
  then show ?thesis by (simp add: map_get_def updateJobResult_def)
qed

lemma depStatus_update_logs:
  "depStatus (updateJobResult k (pushLog l) wr) dep = depStatus wr dep"
  by (simp add: depStatus_def map_get_update pushLog_def option.map_comp comp_def)

lemma callHandler_logs: "logs (snd (snd (callHandler this w job r wr))) = logs r"
  by (simp add: callHandler_def executeConditionJob_def Let_def
      split: jsval.splits sum.splits)

lemma not_pending_executed:
  "filter (dependencyPending ex wr) deps = [] \<Longrightarrow> list_all (\<lambda>dep. sourceJobId dep \<in> ex) deps"
  by (auto simp add: filter_empty_conv list_all_iff dependencyPending_def Let_def)

lemma executeFromNode_dispatched:
  "dispatched (snd (executeFromNode this w c n s)) = dispatched s
   \<or> (\<exists>job. find (\<lambda>j. nodeId j = n) (jobs c) = Some job
         \<and> filter (dependencyPending (executedNodes s) (wfResult s)) (dependencies job) = []
         \<and> dispatched (snd (executeFromNode this w c n s)) = dispatched s @ [(n, executedNodes s)])"
  by (simp add: executeFromNode_def Let_def split: option.splits)

lemma executeFromNode_gate:
  assumes "gateRespected c s"
  shows "gateRespected c (snd (executeFromNode this w c n s))"
proof -
  consider "dispatched (snd (executeFromNode this w c n s)) = dispatched s"
    | job where "find (\<lambda>j. nodeId j = n) (jobs c) = Some job"
        "filter (dependencyPending (executedNodes s) (wfResult s)) (dependencies job) = []"
        "dispatched (snd (executeFromNode this w c n s)) = dispatched s @ [(n, executedNodes s)]"
    using executeFromNode_dispatched [of this w c n s] by blast
  then show ?thesis
  proof cases
    case 1
    with assms show ?thesis by (simp add: gateRespected_def)
  next
    case 2
    from 2(2) have "list_all (\<lambda>dep. sourceJobId dep \<in> executedNodes s) (dependencies job)"
      by (rule not_pending_executed)
    with assms 2(1,3) show ?thesis by (simp add: gateRespected_def)
  qed
qed

lemma followAll_gate:
  "gateRespected c s \<Longrightarrow> gateRespected c (followAll this w c ns s)"
  by (induction ns arbitrary: s) (simp_all add: executeFromNode_gate)

lemma resume_gate:
  assumes "gateRespected c s"
  shows "gateRespected c (resume this w c i s)"
proof -
  obtain job phase where t: "tasks s ! i = (job, phase)" by (cases "tasks s ! i")
  show ?thesis
  proof (cases phase)
    case (Following nexts)
    have "gateRespected c (s\<lparr>tasks := take i (tasks s) @ drop (Suc i) (tasks s)\<rparr>)"
      using assms by (simp add: gateRespected_def)
    then show ?thesis
      by (simp add: resume_def t Following followAll_gate)
  qed (use assms in \<open>simp_all add: resume_def t gateRespected_def Let_def\<close>)
qed

lemma run_gate:
  "gateRespected c s \<Longrightarrow> gateRespected c (run this w c schedule s)"
proof (induction this w c schedule s rule: run.induct)
  case (1 this w c schedule s)
  show ?case
  proof (cases "tasks s = []")
    case True
    with "1.prems" show ?thesis by (simp add: run.simps)
  next
    case False
    have "gateRespected c (resume this w c
            ((case schedule of [] \<Rightarrow> 0 | i # rest \<Rightarrow> i) mod length (tasks s)) s)"
      using "1.prems" by (rule resume_gate)
    with "1.IH" [OF False] False show ?thesis by (simp add: run.simps [of this w c schedule s])
  qed
qed

lemma traverse_gate:
  assumes "traverse this w schedule c = Inr s"
  shows "gateRespected c s"
proof -
  have init: "gateRespected c (initialState c)"
    by (simp add: gateRespected_def initialState_def)
  from assms obtain n where
    s: "s = run this w c schedule (snd (executeFromNode this w c n (initialState c)))"
    by (auto simp add: traverse_def Let_def split: option.splits if_splits)
  show ?thesis
    unfolding s using init by (intro run_gate executeFromNode_gate)
qed

lemma waitingLine_update_logs:
  "waitingLine (updateJobResult k (pushLog l) wr) deps = waitingLine wr deps"
  by (simp add: waitingLine_def depStatus_update_logs)

lemma logs_pushLog: "logs (pushLog l r) = logs r @ [l]"
  by (simp add: pushLog_def)

lemma executeFromNode_defers:
  assumes found: "find (\<lambda>j. nodeId j = n) (jobs c) = Some job"
    and fresh: "n \<notin> executedNodes s"
    and entry: "map_get (jobResults (wfResult s)) n \<noteq> None"
    and missing: "\<exists>dep\<in>set (dependencies job). sourceJobId dep \<notin> executedNodes s"
  shows "fst (executeFromNode this w c n s) = None
         \<and> executedNodes (snd (executeFromNode this w c n s)) = executedNodes s
         \<and> tasks (snd (executeFromNode this w c n s)) = tasks s
         \<and> dispatched (snd (executeFromNode this w c n s)) = dispatched s
         \<and> jobLogs (snd (executeFromNode this w c n s)) n
             = jobLogs s n
               @ (if filter (dependencyFailed (wfResult s)) (dependencies job) \<noteq> []
                  then [failedWarning (wfResult s)
                          (filter (dependencyFailed (wfResult s)) (dependencies job))]
                  else [])
               @ [waitingLine (wfResult s)
                    (filter (dependencyPending (executedNodes s) (wfResult s)) (dependencies job))]"
proof -
  from missing have pending:
    "filter (dependencyPending (executedNodes s) (wfResult s)) (dependencies job) \<noteq> []"
    by (auto simp add: filter_empty_conv dependencyPending_def Let_def)
  from entry obtain r where r: "map_get (jobResults (wfResult s)) n = Some r" by auto
  show ?thesis
    using found fresh pending r
    by (simp add: executeFromNode_def Let_def jobLogs_def map_get_update logs_pushLog
        waitingLine_update_logs)
qed

lemma executeFromNode_dispatches:
  assumes found: "find (\<lambda>j. nodeId j = n) (jobs c) = Some job"
    and fresh: "n \<notin> executedNodes s"
    and entry: "map_get (jobResults (wfResult s)) n \<noteq> None"
    and ready: "\<forall>dep\<in>set (dependencies job). sourceJobId dep \<in> executedNodes s
                 \<and> (depStatus (wfResult s) dep = Some Completed
                      \<or> depStatus (wfResult s) dep = Some Failed)"
  shows "fst (executeFromNode this w c n s) = None
         \<and> dispatched (snd (executeFromNode this w c n s)) = dispatched s @ [(n, executedNodes s)]
         \<and> jobLogs (snd (executeFromNode this w c n s)) n
             = jobLogs s n
               @ (if \<exists>dep\<in>set (dependencies job). depStatus (wfResult s) dep = Some Failed
                  then [failedWarning (wfResult s)
                          (filter (dependencyFailed (wfResult s)) (dependencies job))]
                  else [])"
proof -
  from ready have pending:
    "filter (dependencyPending (executedNodes s) (wfResult s)) (dependencies job) = []"
    by (auto simp add: filter_empty_conv dependencyPending_def Let_def)
  have failed: "(filter (dependencyFailed (wfResult s)) (dependencies job) \<noteq> [])
                  = (\<exists>dep\<in>set (dependencies job). depStatus (wfResult s) dep = Some Failed)"
    by (auto simp add: filter_empty_conv dependencyFailed_def)
  from entry obtain r where r: "map_get (jobResults (wfResult s)) n = Some r" by auto
  show ?thesis
  proof (cases "\<exists>dep\<in>set (dependencies job). depStatus (wfResult s) dep = Some Failed")
    case True
    then show ?thesis
      using found fresh pending r failed
      by (simp add: executeFromNode_def Let_def jobLogs_def map_get_update logs_pushLog
          callHandler_logs)
  next
    case False
    then show ?thesis
      using found fresh pending r failed
      by (simp add: executeFromNode_def Let_def jobLogs_def map_get_update logs_pushLog
          callHandler_logs)
  qed
qed

text \<open>
  Claim C2. In every run, each handler call of a job is made with all of the job's declared
  dependency ids in the executed set. A call of \<^verbatim>\<open>executeFromNode\<close> that finds a
  dependency id outside the executed set returns without calling the handler, leaving the
  executed set and the calls in progress as they were and appending a waiting line to the
  job's log. When every dependency id is in the executed set with status completed or
  failed, the handler is called, and if some dependency has status failed the warning
  line is appended to the job's log.
\<close>

theorem dependency_gate:
  "(traverse this w schedule c = Inr final \<longrightarrow> gateRespected c final)
   \<and> (find (\<lambda>j. nodeId j = n) (jobs c) = Some job \<and> n \<notin> executedNodes s
        \<and> map_get (jobResults (wfResult s)) n \<noteq> None
        \<and> (\<exists>dep\<in>set (dependencies job). sourceJobId dep \<notin> executedNodes s) \<longrightarrow>
        fst (executeFromNode this w c n s) = None
        \<and> executedNodes (snd (executeFromNode this w c n s)) = executedNodes s
        \<and> tasks (snd (executeFromNode this w c n s)) = tasks s
        \<and> dispatched (snd (executeFromNode this w c n s)) = dispatched s
        \<and> jobLogs (snd (executeFromNode this w c n s)) n
            = jobLogs s n
              @ (if filter (dependencyFailed (wfResult s)) (dependencies job) \<noteq> []
                 then [failedWarning (wfResult s)
                         (filter (dependencyFailed (wfResult s)) (dependencies job))]
                 else [])
              @ [waitingLine (wfResult s)
                   (filter (dependencyPending (executedNodes s) (wfResult s))
                      (dependencies job))])
   \<and> (find (\<lambda>j. nodeId j = n) (jobs c) = Some job \<and> n \<notin> executedNodes s
        \<and> map_get (jobResults (wfResult s)) n \<noteq> None
        \<and> (\<forall>dep\<in>set (dependencies job). sourceJobId dep \<in> executedNodes s
              \<and> (depStatus (wfResult s) dep = Some Completed
                   \<or> depStatus (wfResult s) dep = Some Failed)) \<longrightarrow>
        fst (executeFromNode this w c n s) = None
        \<and> dispatched (snd (executeFromNode this w c n s)) = dispatched s @ [(n, executedNodes s)]
        \<and> jobLogs (snd (executeFromNode this w c n s)) n
            = jobLogs s n
              @ (if \<exists>dep\<in>set (dependencies job). depStatus (wfResult s) dep = Some Failed
                 then [failedWarning (wfResult s)
                         (filter (dependencyFailed (wfResult s)) (dependencies job))]
                 else []))"
proof (intro conjI impI)
  assume "traverse this w schedule c = Inr final"
  then show "gateRespected c final" by (rule traverse_gate)
next
  assume a: "find (\<lambda>j. nodeId j = n) (jobs c) = Some job \<and> n \<notin> executedNodes s
        \<and> map_get (jobResults (wfResult s)) n \<noteq> None
        \<and> (\<exists>dep\<in>set (dependencies job). sourceJobId dep \<notin> executedNodes s)"
  note d = executeFromNode_defers [of n c job s this w]
  from a d show "fst (executeFromNode this w c n s) = None" by blast
  from a d show "executedNodes (snd (executeFromNode this w c n s)) = executedNodes s" by blast
  from a d show "tasks (snd (executeFromNode this w c n s)) = tasks s" by blast
  from a d show "dispatched (snd (executeFromNode this w c n s)) = dispatched s" by blast
  from a d show "jobLogs (snd (executeFromNode this w c n s)) n
            = jobLogs s n
              @ (if filter (dependencyFailed (wfResult s)) (dependencies job) \<noteq> []
                 then [failedWarning (wfResult s)
                         (filter (dependencyFailed (wfResult s)) (dependencies job))]
                 else [])
              @ [waitingLine (wfResult s)
                   (filter (dependencyPending (executedNodes s) (wfResult s))
                      (dependencies job))]" by blast
next
  assume a: "find (\<lambda>j. nodeId j = n) (jobs c) = Some job \<and> n \<notin> executedNodes s
        \<and> map_get (jobResults (wfResult s)) n \<noteq> None
        \<and> (\<forall>dep\<in>set (dependencies job). sourceJobId dep \<in> executedNodes s
              \<and> (depStatus (wfResult s) dep = Some Completed
                   \<or> depStatus (wfResult s) dep = Some Failed))"
  note d = executeFromNode_dispatches [of n c job s this w]
  from a d show "fst (executeFromNode this w c n s) = None" by blast
  from a d show "dispatched (snd (executeFromNode this w c n s)) = dispatched s @ [(n, executedNodes s)]"
    by blast
  from a d show "jobLogs (snd (executeFromNode this w c n s)) n
            = jobLogs s n
              @ (if \<exists>dep\<in>set (dependencies job). depStatus (wfResult s) dep = Some Failed
                 then [failedWarning (wfResult s)
                         (filter (dependencyFailed (wfResult s)) (dependencies job))]
                 else [])" by blast
qed

lemma diamond_traverse: "traverse (constructor None) quietWorld inStep diamond = Inr diamondFinal"
  by (simp add: traverse_def diamondFinal_def Let_def executeFromNode_def initialState_def
      initialResults_def diamond_def mkJob_def map_get_def updateJobResult_def
      initialJobResult_def)

lemma diamond_find_D: "find (\<lambda>j. nodeId j = ''D'') (jobs diamond) = Some diamondEnd"
  by (simp add: diamond_def diamondEnd_def mkJob_def)

lemma waitingState_facts:
  "''D'' \<notin> executedNodes waitingState
   \<and> map_get (jobResults (wfResult waitingState)) ''D'' \<noteq> None
   \<and> (\<exists>dep\<in>set (dependencies diamondEnd). sourceJobId dep \<notin> executedNodes waitingState)
   \<and> jobLogs waitingState ''D'' = []
   \<and> filter (dependencyFailed (wfResult waitingState)) (dependencies diamondEnd) = []
   \<and> waitingLine (wfResult waitingState)
        (filter (dependencyPending (executedNodes waitingState) (wfResult waitingState))
           (dependencies diamondEnd))
      = ''Waiting for dependencies: B (pending), C (pending)''"
  by (simp add: waitingState_def initialState_def initialResults_def diamond_def mkJob_def
      map_get_def diamondEnd_def jobLogs_def initialJobResult_def dependencyFailed_def
      dependencyPending_def depStatus_def waitingLine_def depStatusText_def Let_def)

lemma readyState_facts:
  "''D'' \<notin> executedNodes readyState
   \<and> map_get (jobResults (wfResult readyState)) ''D'' \<noteq> None
   \<and> (\<forall>dep\<in>set (dependencies diamondEnd). sourceJobId dep \<in> executedNodes readyState
         \<and> (depStatus (wfResult readyState) dep = Some Completed
              \<or> depStatus (wfResult readyState) dep = Some Failed))
   \<and> (\<exists>dep\<in>set (dependencies diamondEnd). depStatus (wfResult readyState) dep = Some Failed)
   \<and> jobLogs readyState ''D'' = []
   \<and> failedWarning (wfResult readyState)
        (filter (dependencyFailed (wfResult readyState)) (dependencies diamondEnd))
      = ''Warning: Continuing despite failed dependencies: B (failed)''"
  by (simp add: readyState_def initialState_def initialResults_def diamond_def mkJob_def
      map_get_def diamondEnd_def jobLogs_def initialJobResult_def dependencyFailed_def
      depStatus_def failedWarning_def depStatusText_def updateJobResult_def)

theorem dependency_gate_witness:
  "traverse (constructor None) quietWorld inStep diamond = Inr diamondFinal
   \<and> gateRespected diamond diamondFinal
   \<and> find (\<lambda>j. nodeId j = ''D'') (jobs diamond) = Some diamondEnd
   \<and> ''D'' \<notin> executedNodes waitingState
   \<and> tasks (snd (executeFromNode (constructor None) quietWorld diamond ''D'' waitingState))
       = tasks waitingState
   \<and> dispatched (snd (executeFromNode (constructor None) quietWorld diamond ''D'' waitingState))
       = dispatched waitingState
   \<and> jobLogs (snd (executeFromNode (constructor None) quietWorld diamond ''D'' waitingState)) ''D''
       = [''Waiting for dependencies: B (pending), C (pending)'']
   \<and> dispatched (snd (executeFromNode (constructor None) quietWorld diamond ''D'' readyState))
       = dispatched readyState @ [(''D'', executedNodes readyState)]
   \<and> jobLogs (snd (executeFromNode (constructor None) quietWorld diamond ''D'' readyState)) ''D''
       = [''Warning: Continuing despite failed dependencies: B (failed)'']"
proof -
  note a = dependency_gate [of "constructor None" quietWorld inStep diamond diamondFinal
      "''D''" diamondEnd waitingState]
  note b = dependency_gate [of "constructor None" quietWorld inStep diamond diamondFinal
      "''D''" diamondEnd readyState]
  have 1: "gateRespected diamond diamondFinal"
    using a diamond_traverse by blast
  have 2: "tasks (snd (executeFromNode (constructor None) quietWorld diamond ''D'' waitingState))
             = tasks waitingState
           \<and> dispatched (snd (executeFromNode (constructor None) quietWorld diamond ''D'' waitingState))
             = dispatched waitingState
           \<and> jobLogs (snd (executeFromNode (constructor None) quietWorld diamond ''D'' waitingState)) ''D''
             = [''Waiting for dependencies: B (pending), C (pending)'']"
    using a diamond_find_D waitingState_facts by simp
  have 3: "dispatched (snd (executeFromNode (constructor None) quietWorld diamond ''D'' readyState))
             = dispatched readyState @ [(''D'', executedNodes readyState)]
           \<and> jobLogs (snd (executeFromNode (constructor None) quietWorld diamond ''D'' readyState)) ''D''
             = [''Warning: Continuing despite failed dependencies: B (failed)'']"
    using b diamond_find_D readyState_facts by simp
  show ?thesis
    using 1 2 3 diamond_traverse diamond_find_D waitingState_facts by simp
qed

section \<open>The engine: proofs\<close>

lemma map_of_map_set: "map_of (map_set m k v) = (map_of m)(k \<mapsto> v)"
  by (induction m) (auto simp add: fun_eq_iff)

lemma initialResults_entry:
  "map_of (foldl (\<lambda>m job. map_set m (nodeId job) (initialJobResult job)) m0 js) k \<noteq> None
     \<longleftrightarrow> map_of m0 k \<noteq> None \<or> k \<in> nodeId ` set js"
  by (induction js arbitrary: m0) (auto simp add: map_of_map_set)

lemma root_call:
  assumes "find (\<lambda>j. nodeId j = n) (jobs c) = Some job"
  shows "fst (executeFromNode this w c n (initialState c)) = None"
proof -
  have "job \<in> set (jobs c) \<and> nodeId job = n"
    using assms by (rule find_job)
  then have "n \<in> nodeId ` set (jobs c)"
    by auto
  then have "map_of (foldl (\<lambda>m job. map_set m (nodeId job) (initialJobResult job)) [] (jobs c)) n
               \<noteq> None"
    using initialResults_entry [of "[]" "jobs c" n] by simp
  then have "map_get (jobResults (wfResult (initialState c))) n \<noteq> None"
    by (simp add: initialState_def initialResults_def map_get_def)
  then obtain r where r: "map_get (jobResults (wfResult (initialState c))) n = Some r"
    by auto
  have ex: "n \<notin> executedNodes (initialState c)"
    by (simp add: initialState_def)
  show ?thesis
    using assms r ex
    by (simp add: executeFromNode_def Let_def map_get_update split: option.splits)
qed

lemma executeWorkflow_completes:
  assumes "startNode (executionFlow c) = Some n" and "n \<noteq> []"
    and "find (\<lambda>j. nodeId j = n) (jobs c) = Some job"
  shows "\<exists>r. executeWorkflow this w schedule c = Inr r \<and> wstatus r = WCompleted"
proof -
  have "traverse this w schedule c
          = Inr (run this w c schedule (snd (executeFromNode this w c n (initialState c))))"
    using assms root_call [OF assms(3), of this w]
    by (simp add: traverse_def Let_def)
  then show ?thesis
    by (simp add: executeWorkflow_def Let_def)
qed

lemma executeWorkflow_start_missing:
  assumes "startNode (executionFlow c) = Some n" and "n \<noteq> []"
    and "find (\<lambda>j. nodeId j = n) (jobs c) = None"
  shows "executeWorkflow this w schedule c
           = Inl (Error (''Job with ID '' @ n @ '' not found. Available jobs: ''
                         @ join '', '' (map nodeId (jobs c))))"
  using assms
  by (simp add: executeWorkflow_def traverse_def Let_def executeFromNode_def initialState_def)









lemma ghost_run:
  "executeWorkflow (constructor None) quietWorld [] ghostConfig
     = Inr \<lparr> wstatus = WCompleted,
             jobResults = [(''S'', \<lparr> jobId = ''S'', rtype = ''Start'', status = Completed,
                                   result = startJobResult (mkJob ''Start'' ''S'' [(''ghost'', ''out'')] []),
                                   error = None, logs = [] \<rparr>)] \<rparr>"
  by (simp add: executeWorkflow_def traverse_def initialState_def initialResults_def run.simps
      resume_def executeFromNode_def ghostConfig_def mkJob_def map_get_def updateJobResult_def
      callHandler_def Let_def initialJobResult_def getNextJobs_def dependencyPending_def
      dependencyFailed_def depStatus_def markFailed_def pushLog_def)

text \<open>
  Claim C4 fails as stated: a Start job whose only connection leads to an id without a
  job is run to a completed workflow result; the rejected call for that id is discarded.
\<close>

theorem missing_job_counterexample:
  "find (\<lambda>j. nodeId j = ''ghost'') (jobs ghostConfig) = None
   \<and> map targetJobId (connections (jobs ghostConfig ! 0)) = [''ghost'']
   \<and> executeWorkflow (constructor None) quietWorld [] ghostConfig
       = Inr \<lparr> wstatus = WCompleted,
               jobResults = [(''S'', \<lparr> jobId = ''S'', rtype = ''Start'', status = Completed,
                                     result = startJobResult (mkJob ''Start'' ''S'' [(''ghost'', ''out'')] []),
                                     error = None, logs = [] \<rparr>)] \<rparr>"
  by (simp add: ghost_run) (simp add: ghostConfig_def mkJob_def)

lemma executeFromNode_missing:
  assumes "find (\<lambda>j. nodeId j = n) (jobs c) = None" and "n \<notin> executedNodes s"
  shows "executeFromNode this w c n s
           = (Some (Error (''Job with ID '' @ n @ '' not found. Available jobs: ''
                           @ join '', '' (map nodeId (jobs c)))), s)"
  using assms by (simp add: executeFromNode_def)

text \<open>
  Claim C4, amended. When the start node id names no job of the list, the run aborts with
  the job-not-found error. When a followed connection leads to an id that names no job,
  the call for that id rejects with the job-not-found error and changes nothing, the
  rejection is discarded, the other followed ids are still called, and a run whose start
  job exists returns a workflow result with status completed.
\<close>

theorem missing_job:
  "(startNode (executionFlow c) = Some n \<and> n \<noteq> [] \<and> find (\<lambda>j. nodeId j = n) (jobs c) = None \<longrightarrow>
      executeWorkflow this w schedule c
        = Inl (Error (''Job with ID '' @ n @ '' not found. Available jobs: ''
                      @ join '', '' (map nodeId (jobs c)))))
   \<and> (find (\<lambda>j. nodeId j = m) (jobs c) = None \<and> m \<notin> executedNodes s \<longrightarrow>
        executeFromNode this w c m s
          = (Some (Error (''Job with ID '' @ m @ '' not found. Available jobs: ''
                          @ join '', '' (map nodeId (jobs c)))), s)
        \<and> followAll this w c (m # ms) s = followAll this w c ms s)
   \<and> (startNode (executionFlow c) = Some n \<and> n \<noteq> []
        \<and> find (\<lambda>j. nodeId j = n) (jobs c) = Some startJob \<longrightarrow>
        (\<exists>r. executeWorkflow this w schedule c = Inr r \<and> wstatus r = WCompleted))"
proof (intro conjI impI)
  assume "startNode (executionFlow c) = Some n \<and> n \<noteq> [] \<and> find (\<lambda>j. nodeId j = n) (jobs c) = None"
  then show "executeWorkflow this w schedule c
        = Inl (Error (''Job with ID '' @ n @ '' not found. Available jobs: ''
                      @ join '', '' (map nodeId (jobs c))))"
    using executeWorkflow_start_missing by blast
next
  assume a: "find (\<lambda>j. nodeId j = m) (jobs c) = None \<and> m \<notin> executedNodes s"
  then show e: "executeFromNode this w c m s
          = (Some (Error (''Job with ID '' @ m @ '' not found. Available jobs: ''
                          @ join '', '' (map nodeId (jobs c)))), s)"
    using executeFromNode_missing by blast
  show "followAll this w c (m # ms) s = followAll this w c ms s"
    by (simp add: e)
next
  assume "startNode (executionFlow c) = Some n \<and> n \<noteq> []
        \<and> find (\<lambda>j. nodeId j = n) (jobs c) = Some startJob"
  then show "\<exists>r. executeWorkflow this w schedule c = Inr r \<and> wstatus r = WCompleted"
    using executeWorkflow_completes by blast
qed

lemma lostStart_facts:
  "startNode (executionFlow lostStart) = Some ''S''
   \<and> find (\<lambda>j. nodeId j = ''S'') (jobs lostStart) = None
   \<and> join '', '' (map nodeId (jobs lostStart)) = ''E''"
  by (simp add: lostStart_def mkJob_def)

lemma ghostConfig_facts:
  "startNode (executionFlow ghostConfig) = Some ''S''
   \<and> find (\<lambda>j. nodeId j = ''S'') (jobs ghostConfig) = Some (mkJob ''Start'' ''S'' [(''ghost'', ''out'')] [])
   \<and> find (\<lambda>j. nodeId j = ''ghost'') (jobs ghostConfig) = None
   \<and> ''ghost'' \<notin> executedNodes (initialState ghostConfig)
   \<and> join '', '' (map nodeId (jobs ghostConfig)) = ''S''"
  by (simp add: ghostConfig_def mkJob_def initialState_def)

theorem missing_job_witness:
  "startNode (executionFlow lostStart) = Some ''S''
   \<and> find (\<lambda>j. nodeId j = ''S'') (jobs lostStart) = None
   \<and> executeWorkflow (constructor None) quietWorld [] lostStart
       = Inl (Error ''Job with ID S not found. Available jobs: E'')
   \<and> find (\<lambda>j. nodeId j = ''ghost'') (jobs ghostConfig) = None
   \<and> executeFromNode (constructor None) quietWorld ghostConfig ''ghost'' (initialState ghostConfig)
       = (Some (Error ''Job with ID ghost not found. Available jobs: S''), initialState ghostConfig)
   \<and> followAll (constructor None) quietWorld ghostConfig [''ghost''] (initialState ghostConfig)
       = initialState ghostConfig
   \<and> (\<exists>r. executeWorkflow (constructor None) quietWorld [] ghostConfig = Inr r
          \<and> wstatus r = WCompleted)"
proof -
  note a = missing_job [of lostStart "''S''" "constructor None" quietWorld "[]"]
  note b = missing_job [of ghostConfig "''S''" "constructor None" quietWorld "[]" "''ghost''"
      "initialState ghostConfig" "[]" "mkJob ''Start'' ''S'' [(''ghost'', ''out'')] []"]
  have 1: "executeWorkflow (constructor None) quietWorld [] lostStart
       = Inl (Error ''Job with ID S not found. Available jobs: E'')"
    using a lostStart_facts by simp
  have 2: "executeFromNode (constructor None) quietWorld ghostConfig ''ghost'' (initialState ghostConfig)
       = (Some (Error ''Job with ID ghost not found. Available jobs: S''), initialState ghostConfig)
     \<and> followAll (constructor None) quietWorld ghostConfig [''ghost''] (initialState ghostConfig)
       = initialState ghostConfig"
    using b ghostConfig_facts by simp
  have 3: "\<exists>r. executeWorkflow (constructor None) quietWorld [] ghostConfig = Inr r
          \<and> wstatus r = WCompleted"
    using b ghostConfig_facts by simp
  show ?thesis
    using 1 2 3 lostStart_facts ghostConfig_facts by simp
qed

lemma count_by_id:
  "length (filter (\<lambda>d. fst d = n) ds) = length (filter (\<lambda>m. m = n) (map fst ds))"
  by (induction ds) simp_all

text \<open>
  Claim C1 does not hold of the code. In the diamond A->B, A->C, B->D, C->D, with B and C
  two jobs whose calls advance in step, both B and C have entered the executed set when
  the call for D made after B reaches the handler; the call for D made after C then finds
  D outside the executed set too, because a node enters the set only after its handler
  has settled, and calls the handler of D a second time.
\<close>

theorem diamond_handler_twice:
  "\<exists>s. traverse this w inStep diamond = Inr s
       \<and> map fst (dispatched s) = [''A'', ''B'', ''C'', ''D'', ''D'']
       \<and> length (filter (\<lambda>d. fst d = ''D'') (dispatched s)) = 2"
proof -
  define final where
    "final = run this w diamond inStep (snd (executeFromNode this w diamond ''A'' (initialState diamond)))"
  have trace: "map fst (dispatched final) = [''A'', ''B'', ''C'', ''D'', ''D'']"
    unfolding final_def
    by (simp add: initialState_def initialResults_def  run.simps resume_def executeFromNode_def
      diamond_def mkJob_def map_get_def updateJobResult_def callHandler_def Let_def inStep_def
      initialJobResult_def getNextJobs_def dependencyPending_def dependencyFailed_def depStatus_def
      markFailed_def pushLog_def)
  have "length (filter (\<lambda>d. fst d = ''D'') (dispatched final))
          = length (filter (\<lambda>m. m = ''D'') (map fst (dispatched final)))"
    by (rule count_by_id)
  also have "\<dots> = 2"
    unfolding trace by simp
  finally have twice: "length (filter (\<lambda>d. fst d = ''D'') (dispatched final)) = 2" .
  have "traverse this w inStep diamond = Inr final"
    unfolding final_def
    by (simp add: traverse_def Let_def executeFromNode_def initialState_def
      initialResults_def diamond_def mkJob_def map_get_def updateJobResult_def
      initialJobResult_def)
  with trace twice show ?thesis
    by (intro exI [where x = final]) simp
qed

theorem diamond_handler_twice_witness:
  "\<exists>s. traverse (constructor None) quietWorld inStep diamond = Inr s
       \<and> map fst (dispatched s) = [''A'', ''B'', ''C'', ''D'', ''D'']"
  using diamond_handler_twice [of "constructor None" quietWorld]
  by (elim exE conjE) (intro exI conjI)

section \<open>Tree validation: proofs\<close>

lemma checkKeys_cycle:
  "checkKeys graph (map fst graph) ({}, {}) \<longleftrightarrow> (\<exists>v. (v, v) \<in> (edgesOf graph)\<^sup>+)"
proof
  assume "checkKeys graph (map fst graph) ({}, {})"
  then show "\<exists>v. (v, v) \<in> (edgesOf graph)\<^sup>+"
    by (rule checkKeys_true) simp
next
  assume "\<exists>v. (v, v) \<in> (edgesOf graph)\<^sup>+"
  then obtain v where cyc: "(v, v) \<in> (edgesOf graph)\<^sup>+" by blast
  show "checkKeys graph (map fst graph) ({}, {})"
  proof (rule ccontr)
    assume n: "\<not> checkKeys graph (map fst graph) ({}, {})"
    have "\<exists>B. fst (({}, {}) :: string set \<times> string set) \<subseteq> B \<and> set (map fst graph) \<subseteq> B
            \<and> settled graph B"
      using n by (rule checkKeys_false) (simp_all add: settled_def)
    then obtain B where B: "set (map fst graph) \<subseteq> B" "settled graph B"
      by blast
    from cyc obtain w where "(v, w) \<in> edgesOf graph"
      by (meson tranclD)
    then have "neighbors graph v \<noteq> []"
      by (auto simp add: edgesOf_def)
    then have "v \<in> graphNodes graph"
      using neighbors_outside by blast
    with B(1) have "v \<in> B"
      by (auto simp add: graphNodes_def)
    with B(2) cyc show False
      by (simp add: settled_def)
  qed
qed

lemma map_of_pushNeighbor:
  "map_of (pushNeighbor graph k w) u =
     map_option (\<lambda>ns. if u = k then ns @ [w] else ns) (map_of graph u)"
  by (induction graph) (auto simp add: pushNeighbor_def)

lemma edgesOf_pushNeighbor:
  "edgesOf (pushNeighbor (ensureKey graph u) u w) = insert (u, w) (edgesOf graph)"
proof -
  have key: "map_of (ensureKey graph u) u \<noteq> None"
    by (cases "map_of graph u") (simp_all add: ensureKey_def)
  have "set (neighbors (pushNeighbor (ensureKey graph u) u w) x)
          = (if x = u then insert w (set (neighbors graph x)) else set (neighbors graph x))" for x
  proof (cases "x = u")
    case True
    then show ?thesis
      using key neighbors_ensureKey [of graph u u]
      by (auto simp add: neighbors_def map_of_pushNeighbor split: option.splits)
  next
    case False
    then show ?thesis
      using neighbors_ensureKey [of graph u x]
      by (auto simp add: neighbors_def map_of_pushNeighbor split: option.splits)
  qed
  then show ?thesis by (auto simp add: edgesOf_def split: if_splits)
qed

lemma edgesOf_keys:
  "edgesOf graph = {} \<Longrightarrow>
     edgesOf (foldl (\<lambda>graph node. map_set graph (flow_id node) []) graph nodes) = {}"
proof (induction nodes arbitrary: graph)
  case Nil
  then show ?case by simp
next
  case (Cons n nodes)
  have "edgesOf (map_set graph (flow_id n) []) = {}"
    using Cons.prems
    by (auto simp add: edgesOf_def neighbors_def map_of_map_set split: option.splits if_splits)
  then show ?case by (simp add: Cons.IH)
qed

lemma edgesOf_pushAll:
  "edgesOf (foldl (\<lambda>graph edge.
              pushNeighbor (ensureKey graph (flow_source edge)) (flow_source edge) (flow_target edge))
            graph es)
     = edgesOf graph \<union> flowEdges es"
  by (induction es arbitrary: graph) (auto simp add: edgesOf_pushNeighbor flowEdges_def)

lemma detectCycles_cycle:
  "detectCycles nodes edges \<longleftrightarrow> (\<exists>v. (v, v) \<in> (flowEdges edges)\<^sup>+)"
proof -
  have "edgesOf (detectCyclesGraph nodes edges) = flowEdges edges"
    by (simp add: detectCyclesGraph_def edgesOf_pushAll edgesOf_keys edgesOf_empty)
  then show ?thesis
    by (simp add: detectCycles_def Let_def checkKeys_cycle)
qed

lemma multipleParents_eq:
  "multipleParents nodes ct counts errs =
     errs @ map (\<lambda>e. multipleParentsError (nodeName nodes (fst e)))
              (filter (\<lambda>e. snd e > 1 \<and> fst e \<notin> ct) counts)"
  by (induction counts arbitrary: errs) auto

lemma map_set_keys:
  "map fst (map_set m k v) = (if k \<in> set (map fst m) then map fst m else map fst m @ [k])"
  by (induction m) force+

lemma map_set_distinct: "distinct (map fst m) \<Longrightarrow> distinct (map fst (map_set m k v))"
  by (simp add: map_set_keys)

lemma tracked:
  "distinct (map fst (fst (foldl (trackEdge nodes) ([], {}) es)))
   \<and> (\<forall>t. map_of (fst (foldl (trackEdge nodes) ([], {}) es)) t
          = (if incoming es t = [] then None else Some (length (incoming es t))))
   \<and> snd (foldl (trackEdge nodes) ([], {}) es)
       = flow_target ` {e \<in> set es. isConditionalEdge nodes e}"
proof (induction es rule: rev_induct)
  case Nil
  then show ?case by (simp add: incoming_def)
next
  case (snoc e es)
  define st where "st = foldl (trackEdge nodes) ([], {}) es"
  have step: "foldl (trackEdge nodes) ([], {}) (es @ [e]) = trackEdge nodes st e"
    by (simp add: st_def)
  from snoc have d: "distinct (map fst (fst st))"
    and c: "\<And>t. map_of (fst st) t
              = (if incoming es t = [] then None else Some (length (incoming es t)))"
    and s: "snd st = flow_target ` {e \<in> set es. isConditionalEdge nodes e}"
    by (simp_all add: st_def)
  have 1: "distinct (map fst (fst (trackEdge nodes st e)))"
    using d by (simp add: trackEdge_def map_set_distinct)
  have 2: "map_of (fst (trackEdge nodes st e)) t
             = (if incoming (es @ [e]) t = [] then None
                else Some (length (incoming (es @ [e]) t)))" for t
    using c [of t] c [of "flow_target e"]
    by (auto simp add: trackEdge_def map_of_map_set map_get_def incoming_def)
  have 3: "snd (trackEdge nodes st e)
             = flow_target ` {e' \<in> set (es @ [e]). isConditionalEdge nodes e'}"
    using s by (auto simp add: trackEdge_def)
  show ?case
    unfolding step using 1 2 3 by blast
qed

lemma validateTree_errors:
  assumes "nodes \<noteq> []"
  shows "errors (validateTree nodes edges)
           = map (\<lambda>e. multipleParentsError (nodeName nodes (fst e)))
               (filter (\<lambda>e. 1 < snd e
                            \<and> fst e \<notin> flow_target ` {e \<in> set edges. isConditionalEdge nodes e})
                  (fst (foldl (trackEdge nodes) ([], {}) edges)))
             @ (if \<exists>v. (v, v) \<in> (flowEdges edges)\<^sup>+ then [cycleError] else [])"
    and "isValid (validateTree nodes edges) \<longleftrightarrow> errors (validateTree nodes edges) = []"
  using assms tracked [of nodes edges]
  by (simp_all add: validateTree_def Let_def multipleParents_eq detectCycles_cycle)

lemma counted:
  assumes "incoming edges t \<noteq> []"
  shows "(t, length (incoming edges t)) \<in> set (fst (foldl (trackEdge nodes) ([], {}) edges))"
proof -
  have "map_of (fst (foldl (trackEdge nodes) ([], {}) edges)) t = Some (length (incoming edges t))"
    using assms tracked [of nodes edges] by simp
  then show ?thesis by (rule map_of_SomeD)
qed

lemma counted_only:
  assumes "(t, k) \<in> set (fst (foldl (trackEdge nodes) ([], {}) edges))"
  shows "k = length (incoming edges t) \<and> incoming edges t \<noteq> []"
proof -
  have d: "distinct (map fst (fst (foldl (trackEdge nodes) ([], {}) edges)))"
    using tracked [of nodes edges] by simp
  have "map_of (fst (foldl (trackEdge nodes) ([], {}) edges)) t = Some k"
    using d assms by (rule map_of_is_SomeI)
  then show ?thesis
    using tracked [of nodes edges] by (auto split: if_splits)
qed

lemma error_texts:
  "''Workflow must have at least one Start node'' \<noteq> cycleError"
  "multipleParentsError a \<noteq> cycleError"
  "multipleParentsError a \<noteq> ''Workflow must have at least one Start node''"
  "multipleParentsError a = multipleParentsError b \<longleftrightarrow> a = b"
  by (simp_all add: cycleError_def multipleParentsError_def)

lemma multipleParents_reported:
  assumes "nodes \<noteq> []" and "1 < length (incoming edges t)"
    and "\<forall>e\<in>set (incoming edges t). \<not> isConditionalEdge nodes e"
  shows "multipleParentsError (nodeName nodes t) \<in> set (errors (validateTree nodes edges))"
proof -
  from assms(2) have "incoming edges t \<noteq> []" by auto
  then have c: "(t, length (incoming edges t)) \<in> set (fst (foldl (trackEdge nodes) ([], {}) edges))"
    by (rule counted)
  have n: "t \<notin> flow_target ` {e \<in> set edges. isConditionalEdge nodes e}"
    using assms(3) by (auto simp add: incoming_def)
  have "(t, length (incoming edges t))
          \<in> set (filter (\<lambda>e. 1 < snd e
                            \<and> fst e \<notin> flow_target ` {e \<in> set edges. isConditionalEdge nodes e})
                  (fst (foldl (trackEdge nodes) ([], {}) edges)))"
    using c n assms(2) by simp
  then have "multipleParentsError (nodeName nodes t)
          \<in> (\<lambda>e. multipleParentsError (nodeName nodes (fst e)))
               ` set (filter (\<lambda>e. 1 < snd e
                            \<and> fst e \<notin> flow_target ` {e \<in> set edges. isConditionalEdge nodes e})
                  (fst (foldl (trackEdge nodes) ([], {}) edges)))"
    by (rule image_eqI [rotated]) simp
  then show ?thesis
    by (simp add: validateTree_errors(1) [OF assms(1)])
qed

lemma tree_valid:
  assumes "\<forall>t. length (incoming edges t) \<le> 1 \<or> (\<forall>e\<in>set (incoming edges t). isConditionalEdge nodes e)"
    and "\<not> (\<exists>v. (v, v) \<in> (flowEdges edges)\<^sup>+)"
  shows "validateTree nodes edges = \<lparr> isValid = True, errors = [] \<rparr>"
proof (cases "nodes = []")
  case True
  then show ?thesis by (simp add: validateTree_def)
next
  case False
  have "filter (\<lambda>e. 1 < snd e
                    \<and> fst e \<notin> flow_target ` {e \<in> set edges. isConditionalEdge nodes e})
          (fst (foldl (trackEdge nodes) ([], {}) edges)) = []"
  proof (rule ccontr)
    assume "filter (\<lambda>e. 1 < snd e
                    \<and> fst e \<notin> flow_target ` {e \<in> set edges. isConditionalEdge nodes e})
          (fst (foldl (trackEdge nodes) ([], {}) edges)) \<noteq> []"
    then obtain t k where tk: "(t, k) \<in> set (fst (foldl (trackEdge nodes) ([], {}) edges))"
      "1 < k" "t \<notin> flow_target ` {e \<in> set edges. isConditionalEdge nodes e}"
      by (auto simp add: filter_empty_conv)
    from tk(1) have k: "k = length (incoming edges t)" "incoming edges t \<noteq> []"
      using counted_only by blast+
    from k(2) obtain e where e: "e \<in> set (incoming edges t)"
      by (cases "incoming edges t") auto
    from assms(1) k(1) tk(2) have "\<forall>e\<in>set (incoming edges t). isConditionalEdge nodes e"
      by (metis not_less)
    with e have "isConditionalEdge nodes e" by blast
    moreover from e have "e \<in> set edges" "flow_target e = t"
      by (simp_all add: incoming_def)
    ultimately have "t \<in> flow_target ` {e \<in> set edges. isConditionalEdge nodes e}"
      by blast
    with tk(3) show False by simp
  qed
  then have "errors (validateTree nodes edges) = []"
    using assms(2) by (simp add: validateTree_errors(1) [OF False])
  moreover have "isValid (validateTree nodes edges)"
    using calculation by (simp add: validateTree_errors(2) [OF False])
  ultimately show ?thesis by (cases "validateTree nodes edges") simp
qed

lemma cycle_reported:
  assumes "nodes \<noteq> []"
  shows "cycleError \<in> set (errors (validateTree nodes edges))
           \<longleftrightarrow> (\<exists>v. (v, v) \<in> (flowEdges edges)\<^sup>+)"
  using error_texts(2) [symmetric]
  by (auto simp add: validateTree_errors(1) [OF assms])

lemma start_reported:
  "''Workflow must have at least one Start node'' \<in> set (errors (validateWorkflow wnodes wedges))
     \<longleftrightarrow> \<not> (\<exists>n\<in>set wnodes. node_type n = StartNode)"
proof -
  have "''Workflow must have at least one Start node'' \<noteq> missingInputError l" for l
    by (simp add: missingInputError_def)
  then show ?thesis
    by (auto simp add: validateWorkflow_def Let_def missingConnections_eq filter_empty_conv)
qed

lemma invalid_if_error:
  "e \<in> set (errors (validateWorkflow wnodes wedges)) \<Longrightarrow> \<not> isValid (validateWorkflow wnodes wedges)"
  by (auto simp add: validateWorkflow_def Let_def)

lemma twoStarts_valid:
  "length (filter (\<lambda>n. node_type n = StartNode) twoStarts) = 2
   \<and> validateWorkflow twoStarts [] = \<lparr> isValid = True, errors = [] \<rparr>
   \<and> validateTree (map reactFlowNode twoStarts) [] = \<lparr> isValid = True, errors = [] \<rparr>"
  by (simp add: twoStarts_def validateWorkflow_def startNodeA_def startNodeB_def Let_def
      validateTree_def reactFlowNode_def detectCycles_def detectCyclesGraph_def neighbors_def)

lemma mixed_graph:
  "detectCyclesGraph (map reactFlowNode mixedNodes) (map reactFlowEdge mixedEdges)
     = [(''s1'', [''a'', ''c'', ''t'']), (''a'', [''t'']), (''c'', [''t'']), (''t'', [])]"
  by (simp add: detectCyclesGraph_def mixedNodes_def mixedEdges_def reactFlowNode_def
      reactFlowEdge_def startNodeA_def taskNode_def condNode_def mkEdge_def ensureKey_def
      pushNeighbor_def)

lemma mixed_tracked:
  "foldl (trackEdge (map reactFlowNode mixedNodes)) ([], {}) (map reactFlowEdge mixedEdges)
     = ([(''a'', 1), (''c'', 1), (''t'', 3)], {''t''})"
  by (simp add: mixedNodes_def mixedEdges_def reactFlowNode_def reactFlowEdge_def startNodeA_def
      taskNode_def condNode_def mkEdge_def trackEdge_def isConditionalEdge_def map_get_def)

lemma mixed_valid:
  "length (filter (\<lambda>e. \<not> isConditionalEdge (map reactFlowNode mixedNodes) e)
             (incoming (map reactFlowEdge mixedEdges) ''t'')) = 2
   \<and> validateWorkflow mixedNodes mixedEdges = \<lparr> isValid = True, errors = [] \<rparr>
   \<and> validateTree (map reactFlowNode mixedNodes) (map reactFlowEdge mixedEdges)
       = \<lparr> isValid = True, errors = [] \<rparr>"
proof (intro conjI)
  show "length (filter (\<lambda>e. \<not> isConditionalEdge (map reactFlowNode mixedNodes) e)
             (incoming (map reactFlowEdge mixedEdges) ''t'')) = 2"
    by (simp add: mixedNodes_def mixedEdges_def reactFlowNode_def reactFlowEdge_def startNodeA_def
        taskNode_def condNode_def mkEdge_def isConditionalEdge_def incoming_def)
  show "validateWorkflow mixedNodes mixedEdges = \<lparr> isValid = True, errors = [] \<rparr>"
    by (simp add: validateWorkflow_def mixedNodes_def mixedEdges_def startNodeA_def taskNode_def
        condNode_def mkEdge_def Let_def)
  have "\<not> detectCycles (map reactFlowNode mixedNodes) (map reactFlowEdge mixedEdges)"
    by (simp add: detectCycles_def mixed_graph neighbors_def Let_def)
  moreover have "map reactFlowNode mixedNodes \<noteq> []"
    by (simp add: mixedNodes_def)
  ultimately show "validateTree (map reactFlowNode mixedNodes) (map reactFlowEdge mixedEdges)
       = \<lparr> isValid = True, errors = [] \<rparr>"
    by (simp add: validateTree_def mixed_tracked Let_def)
qed

text \<open>
  Claim C6 fails as stated. Two Start nodes pass \<^verbatim>\<open>validateWorkflow\<close> and
  \<^verbatim>\<open>validateTree\<close> without an error. A node entered by two edges that leave no
  Condition branch and by a third edge that leaves the true handle of a Condition node
  passes both as well.
\<close>

theorem validation_counterexample:
  "length (filter (\<lambda>n. node_type n = StartNode) twoStarts) = 2
   \<and> validateWorkflow twoStarts [] = \<lparr> isValid = True, errors = [] \<rparr>
   \<and> validateTree (map reactFlowNode twoStarts) [] = \<lparr> isValid = True, errors = [] \<rparr>
   \<and> length (filter (\<lambda>e. \<not> isConditionalEdge (map reactFlowNode mixedNodes) e)
               (incoming (map reactFlowEdge mixedEdges) ''t'')) = 2
   \<and> validateWorkflow mixedNodes mixedEdges = \<lparr> isValid = True, errors = [] \<rparr>
   \<and> validateTree (map reactFlowNode mixedNodes) (map reactFlowEdge mixedEdges)
       = \<lparr> isValid = True, errors = [] \<rparr>"
  using twoStarts_valid mixed_valid by simp

text \<open>
  Claim C6, amended. \<^verbatim>\<open>validateWorkflow\<close> answers invalid with the error
  \<^verbatim>\<open>Workflow must have at least one Start node\<close> when there is no Start node.
  \<^verbatim>\<open>validateTree\<close>, on a non-empty node list whose labels can be printed, answers
  invalid with the cycle error exactly when the edges contain a directed cycle, and
  answers invalid with the multiple-parents error naming a node when more than one edge
  enters that node and none of them leaves the true or false handle of a Condition node.
  It answers valid without errors when there is no cycle and every node is entered by at
  most one edge or by edges from Condition branches only. The three error texts differ,
  and the multiple-parents errors of two names differ.
\<close>

theorem validation_errors:
  "(\<not> (\<exists>n\<in>set wnodes. node_type n = StartNode) \<longrightarrow>
      \<not> isValid (validateWorkflow wnodes wedges)
      \<and> ''Workflow must have at least one Start node''
            \<in> set (errors (validateWorkflow wnodes wedges)))
   \<and> (nodes \<noteq> [] \<and> (\<forall>n\<in>set nodes. printable (flow_label n)) \<longrightarrow>
        (cycleError \<in> set (errors (validateTree nodes edges))
           \<longleftrightarrow> (\<exists>v. (v, v) \<in> (flowEdges edges)\<^sup>+))
        \<and> ((\<exists>v. (v, v) \<in> (flowEdges edges)\<^sup>+) \<longrightarrow> \<not> isValid (validateTree nodes edges)))
   \<and> (nodes \<noteq> [] \<and> (\<forall>n\<in>set nodes. printable (flow_label n))
        \<and> 1 < length (incoming edges t)
        \<and> (\<forall>e\<in>set (incoming edges t). \<not> isConditionalEdge nodes e) \<longrightarrow>
        \<not> isValid (validateTree nodes edges)
        \<and> multipleParentsError (nodeName nodes t) \<in> set (errors (validateTree nodes edges)))
   \<and> ((\<forall>t. length (incoming edges t) \<le> 1
              \<or> (\<forall>e\<in>set (incoming edges t). isConditionalEdge nodes e))
        \<and> \<not> (\<exists>v. (v, v) \<in> (flowEdges edges)\<^sup>+) \<longrightarrow>
        validateTree nodes edges = \<lparr> isValid = True, errors = [] \<rparr>)
   \<and> ''Workflow must have at least one Start node'' \<noteq> cycleError
   \<and> multipleParentsError a \<noteq> cycleError
   \<and> multipleParentsError a \<noteq> ''Workflow must have at least one Start node''
   \<and> (multipleParentsError a = multipleParentsError b \<longrightarrow> a = b)"
proof (intro conjI impI)
  assume a: "\<not> (\<exists>n\<in>set wnodes. node_type n = StartNode)"
  then show e: "''Workflow must have at least one Start node''
            \<in> set (errors (validateWorkflow wnodes wedges))"
    using start_reported by blast
  then show "\<not> isValid (validateWorkflow wnodes wedges)"
    by (rule invalid_if_error)
next
  assume a: "nodes \<noteq> [] \<and> (\<forall>n\<in>set nodes. printable (flow_label n))"
  then have n: "nodes \<noteq> []" by simp
  show "cycleError \<in> set (errors (validateTree nodes edges))
           \<longleftrightarrow> (\<exists>v. (v, v) \<in> (flowEdges edges)\<^sup>+)"
    using n by (rule cycle_reported)
next
  assume a: "nodes \<noteq> [] \<and> (\<forall>n\<in>set nodes. printable (flow_label n))"
    and c: "\<exists>v. (v, v) \<in> (flowEdges edges)\<^sup>+"
  from a have n: "nodes \<noteq> []" by simp
  from c have "cycleError \<in> set (errors (validateTree nodes edges))"
    using cycle_reported [OF n] by blast
  then have "errors (validateTree nodes edges) \<noteq> []" by auto
  then show "\<not> isValid (validateTree nodes edges)"
    by (simp add: validateTree_errors(2) [OF n])
next
  assume a: "nodes \<noteq> [] \<and> (\<forall>n\<in>set nodes. printable (flow_label n))
        \<and> 1 < length (incoming edges t)
        \<and> (\<forall>e\<in>set (incoming edges t). \<not> isConditionalEdge nodes e)"
  then have n: "nodes \<noteq> []" by simp
  from a show e: "multipleParentsError (nodeName nodes t) \<in> set (errors (validateTree nodes edges))"
    by (intro multipleParents_reported) simp_all
  then have "errors (validateTree nodes edges) \<noteq> []" by auto
  then show "\<not> isValid (validateTree nodes edges)"
    by (simp add: validateTree_errors(2) [OF n])
next
  assume "(\<forall>t. length (incoming edges t) \<le> 1
              \<or> (\<forall>e\<in>set (incoming edges t). isConditionalEdge nodes e))
        \<and> \<not> (\<exists>v. (v, v) \<in> (flowEdges edges)\<^sup>+)"
  then show "validateTree nodes edges = \<lparr> isValid = True, errors = [] \<rparr>"
    by (intro tree_valid) simp_all
next
  show "''Workflow must have at least one Start node'' \<noteq> cycleError"
    by (rule error_texts(1))
  show "multipleParentsError a \<noteq> cycleError"
    by (rule error_texts(2))
  show "multipleParentsError a \<noteq> ''Workflow must have at least one Start node''"
    by (rule error_texts(3))
next
  assume "multipleParentsError a = multipleParentsError b"
  then show "a = b" using error_texts(4) by blast
qed

lemma loop_flowEdges:
  "flowEdges (map reactFlowEdge loopEdges) = {(''s1'', ''a''), (''a'', ''b''), (''b'', ''a'')}"
  by (simp add: flowEdges_def loopEdges_def reactFlowEdge_def mkEdge_def)

lemma loop_cycle: "\<exists>v. (v, v) \<in> (flowEdges (map reactFlowEdge loopEdges))\<^sup>+"
proof -
  have "(''a'', ''b'') \<in> (flowEdges (map reactFlowEdge loopEdges))\<^sup>+"
    unfolding loop_flowEdges by (rule r_into_trancl) simp
  moreover have "(''b'', ''a'') \<in> flowEdges (map reactFlowEdge loopEdges)"
    unfolding loop_flowEdges by simp
  ultimately have "(''a'', ''a'') \<in> (flowEdges (map reactFlowEdge loopEdges))\<^sup>+"
    by (rule trancl_into_trancl)
  then show ?thesis by blast
qed

lemma loop_graph:
  "detectCyclesGraph (map reactFlowNode loopNodes) (map reactFlowEdge loopEdges)
     = [(''s1'', [''a'']), (''a'', [''b'']), (''b'', [''a''])]"
  by (simp add: detectCyclesGraph_def loopNodes_def loopEdges_def reactFlowNode_def
      reactFlowEdge_def startNodeA_def taskNode_def mkEdge_def ensureKey_def pushNeighbor_def)

lemma loop_tracked:
  "foldl (trackEdge (map reactFlowNode loopNodes)) ([], {}) (map reactFlowEdge loopEdges)
     = ([(''a'', 2), (''b'', 1)], {})"
  by (simp add: loopNodes_def loopEdges_def reactFlowNode_def reactFlowEdge_def startNodeA_def
      taskNode_def mkEdge_def trackEdge_def isConditionalEdge_def map_get_def)

lemma loop_labels:
  "map reactFlowNode loopNodes \<noteq> []
   \<and> (\<forall>n\<in>set (map reactFlowNode loopNodes). printable (flow_label n))
   \<and> nodeName (map reactFlowNode loopNodes) ''a'' = ''Task''"
  by (simp add: loopNodes_def reactFlowNode_def nodeName_def startNodeA_def taskNode_def js_or_def)

lemma loop_errors:
  "errors (validateTree (map reactFlowNode loopNodes) (map reactFlowEdge loopEdges))
     = [multipleParentsError ''Task'', cycleError]"
proof -
  have "detectCycles (map reactFlowNode loopNodes) (map reactFlowEdge loopEdges)"
    by (simp add: detectCycles_def loop_graph neighbors_def Let_def)
  then show ?thesis
    using loop_labels by (simp add: validateTree_def loop_tracked Let_def)
qed

lemma diamond_graph:
  "detectCyclesGraph (map reactFlowNode diamondNodes) (map reactFlowEdge diamondEdges)
     = [(''s1'', [''a'', ''b'']), (''a'', [''c'']), (''b'', [''c'']), (''c'', [])]"
  by (simp add: detectCyclesGraph_def diamondNodes_def diamondEdges_def reactFlowNode_def
      reactFlowEdge_def startNodeA_def taskNode_def mkEdge_def ensureKey_def pushNeighbor_def)

lemma diamond_tracked:
  "foldl (trackEdge (map reactFlowNode diamondNodes)) ([], {}) (map reactFlowEdge diamondEdges)
     = ([(''a'', 1), (''b'', 1), (''c'', 2)], {})"
  by (simp add: diamondNodes_def diamondEdges_def reactFlowNode_def reactFlowEdge_def
      startNodeA_def taskNode_def mkEdge_def trackEdge_def isConditionalEdge_def map_get_def)

lemma diamond_labels:
  "map reactFlowNode diamondNodes \<noteq> []
   \<and> (\<forall>n\<in>set (map reactFlowNode diamondNodes). printable (flow_label n))
   \<and> nodeName (map reactFlowNode diamondNodes) ''c'' = ''Task''
   \<and> 1 < length (incoming (map reactFlowEdge diamondEdges) ''c'')
   \<and> (\<forall>e\<in>set (incoming (map reactFlowEdge diamondEdges) ''c'').
          \<not> isConditionalEdge (map reactFlowNode diamondNodes) e)"
  by (simp add: diamondNodes_def diamondEdges_def reactFlowNode_def reactFlowEdge_def
      nodeName_def startNodeA_def taskNode_def mkEdge_def js_or_def incoming_def
      isConditionalEdge_def)

lemma diamond_errors:
  "errors (validateTree (map reactFlowNode diamondNodes) (map reactFlowEdge diamondEdges))
     = [multipleParentsError ''Task'']"
proof -
  have "\<not> detectCycles (map reactFlowNode diamondNodes) (map reactFlowEdge diamondEdges)"
    by (simp add: detectCycles_def diamond_graph neighbors_def Let_def)
  then show ?thesis
    using diamond_labels by (simp add: validateTree_def diamond_tracked Let_def)
qed

lemma chain_tree:
  "(\<forall>t. length (incoming (map reactFlowEdge [mkEdge ''s1'' ''a'']) t) \<le> 1
         \<or> (\<forall>e\<in>set (incoming (map reactFlowEdge [mkEdge ''s1'' ''a'']) t).
               isConditionalEdge (map reactFlowNode [startNodeA, taskNode ''a'']) e))
   \<and> \<not> (\<exists>v. (v, v) \<in> (flowEdges (map reactFlowEdge [mkEdge ''s1'' ''a'']))\<^sup>+)"
proof -
  have e: "flowEdges (map reactFlowEdge [mkEdge ''s1'' ''a'']) = {(''s1'', ''a'')}"
    by (simp add: flowEdges_def reactFlowEdge_def mkEdge_def)
  have "(v, v) \<notin> {(''s1'', ''a'')}\<^sup>+" for v :: string
    by (auto simp add: trancl_insert)
  then show ?thesis
    unfolding e by (simp add: incoming_def)
qed

lemma orphan_start: "\<not> (\<exists>n\<in>set [taskNode ''a'']. node_type n = StartNode)"
  by (simp add: taskNode_def)

theorem validation_errors_witness:
  "\<not> (\<exists>n\<in>set [taskNode ''a'']. node_type n = StartNode)
   \<and> \<not> isValid (validateWorkflow [taskNode ''a''] [])
   \<and> ''Workflow must have at least one Start node''
         \<in> set (errors (validateWorkflow [taskNode ''a''] []))
   \<and> map reactFlowNode loopNodes \<noteq> []
   \<and> list_all (\<lambda>n. printable (flow_label n)) (map reactFlowNode loopNodes)
   \<and> (\<exists>v. (v, v) \<in> (flowEdges (map reactFlowEdge loopEdges))\<^sup>+)
   \<and> errors (validateTree (map reactFlowNode loopNodes) (map reactFlowEdge loopEdges))
       = [multipleParentsError ''Task'', cycleError]
   \<and> \<not> isValid (validateTree (map reactFlowNode loopNodes) (map reactFlowEdge loopEdges))
   \<and> 1 < length (incoming (map reactFlowEdge diamondEdges) ''c'')
   \<and> list_all (\<lambda>e. \<not> isConditionalEdge (map reactFlowNode diamondNodes) e)
         (incoming (map reactFlowEdge diamondEdges) ''c'')
   \<and> errors (validateTree (map reactFlowNode diamondNodes) (map reactFlowEdge diamondEdges))
       = [multipleParentsError ''Task'']
   \<and> \<not> isValid (validateTree (map reactFlowNode diamondNodes) (map reactFlowEdge diamondEdges))
   \<and> validateTree (map reactFlowNode [startNodeA, taskNode ''a''])
         (map reactFlowEdge [mkEdge ''s1'' ''a''])
       = \<lparr> isValid = True, errors = [] \<rparr>"
proof -
  note a = validation_errors [of "[taskNode ''a'']" "[]" "map reactFlowNode loopNodes"
      "map reactFlowEdge loopEdges" "''a''"]
  note b = validation_errors [of "[taskNode ''a'']" "[]" "map reactFlowNode diamondNodes"
      "map reactFlowEdge diamondEdges" "''c''"]
  note c = validation_errors [of "[taskNode ''a'']" "[]"
      "map reactFlowNode [startNodeA, taskNode ''a'']" "map reactFlowEdge [mkEdge ''s1'' ''a'']"]
  have 1: "\<not> isValid (validateWorkflow [taskNode ''a''] [])
     \<and> ''Workflow must have at least one Start node''
         \<in> set (errors (validateWorkflow [taskNode ''a''] []))"
    using a orphan_start by blast
  have 2: "\<not> isValid (validateTree (map reactFlowNode loopNodes) (map reactFlowEdge loopEdges))"
    using a loop_labels loop_cycle by blast
  have 3: "\<not> isValid (validateTree (map reactFlowNode diamondNodes) (map reactFlowEdge diamondEdges))"
    using b diamond_labels by blast
  have 4: "validateTree (map reactFlowNode [startNodeA, taskNode ''a''])
         (map reactFlowEdge [mkEdge ''s1'' ''a''])
       = \<lparr> isValid = True, errors = [] \<rparr>"
    using c chain_tree by blast
  show ?thesis
    using 1 2 3 4 orphan_start loop_labels loop_cycle loop_errors diamond_labels diamond_errors
    by (simp add: list_all_iff)
qed

end
